theory Spec2Isabelle
  imports Complex_Main
begin
section \<open>Strings\<close>

text \<open>
  A JavaScript string is modelled as a \<open>string\<close>: the list of its code units, restricted
  to code units below 256. \<open>undefined\<close> is \<open>None\<close> of \<open>string option\<close>.
\<close>

definition code :: "char \<Rightarrow> nat" where
  "code c = of_char c"

definition isDigit :: "char \<Rightarrow> bool" where
  "isDigit c \<longleftrightarrow> 48 \<le> code c \<and> code c \<le> 57"

definition isAlnum :: "char \<Rightarrow> bool" where
  "isAlnum c \<longleftrightarrow> isDigit c \<or> (65 \<le> code c \<and> code c \<le> 90) \<or> (97 \<le> code c \<and> code c \<le> 122)"

definition isSpace :: "char \<Rightarrow> bool" where
  \<comment> \<open>the white space and line terminators of \<open>trim\<close> and of \<open>\s\<close>, below 256\<close>
  "isSpace c \<longleftrightarrow> code c \<in> {9, 10, 11, 12, 13, 32, 160}"

definition toLowerChar :: "char \<Rightarrow> char" where
  "toLowerChar c =
     (if (65 \<le> code c \<and> code c \<le> 90) \<or> (192 \<le> code c \<and> code c \<le> 222 \<and> code c \<noteq> 215)
      then char_of (code c + 32) else c)"

definition toLowerCase :: "string \<Rightarrow> string" where
  "toLowerCase s = map toLowerChar s"

definition trim :: "string \<Rightarrow> string" where
  "trim s = rev (dropWhile isSpace (rev (dropWhile isSpace s)))"

definition falsy :: "string option \<Rightarrow> bool" where
  \<comment> \<open>\<open>!s\<close> for a value that is a string or \<open>undefined\<close>\<close>
  "falsy s \<longleftrightarrow> s = None \<or> s = Some []"

definition orElse :: "string option \<Rightarrow> string \<Rightarrow> string" where
  \<comment> \<open>\<open>s || d\<close>\<close>
  "orElse s d = (case s of None \<Rightarrow> d | Some v \<Rightarrow> if v = [] then d else v)"

fun strLe :: "string \<Rightarrow> string \<Rightarrow> bool" where
  \<comment> \<open>\<open>a <= b\<close> on strings: code units compared from the left\<close>
  "strLe [] b = True"
| "strLe (x # xs) [] = False"
| "strLe (x # xs) (y # ys) =
     (if code x < code y then True else if code y < code x then False else strLe xs ys)"

fun isPrefixOf :: "string \<Rightarrow> string \<Rightarrow> bool" where
  "isPrefixOf [] s = True"
| "isPrefixOf (x # xs) [] = False"
| "isPrefixOf (x # xs) (y # ys) = (x = y \<and> isPrefixOf xs ys)"

fun strIncludes :: "string \<Rightarrow> string \<Rightarrow> bool" where
  \<comment> \<open>\<open>s.includes(t)\<close>\<close>
  "strIncludes [] t = (t = [])"
| "strIncludes (x # xs) t = (isPrefixOf t (x # xs) \<or> strIncludes xs t)"

definition endsWith :: "string \<Rightarrow> string \<Rightarrow> bool" where
  "endsWith s t = isPrefixOf (rev t) (rev s)"

section \<open>Decimal numbers\<close>

definition digitVal :: "char \<Rightarrow> nat" where
  "digitVal c = code c - 48"

definition digitChar :: "nat \<Rightarrow> char" where
  "digitChar n = char_of (48 + n)"

fun digitsToNat :: "nat \<Rightarrow> string \<Rightarrow> nat" where
  \<comment> \<open>the value of a run of decimal digits, from an accumulator\<close>
  "digitsToNat acc [] = acc"
| "digitsToNat acc (c # cs) = digitsToNat (acc * 10 + digitVal c) cs"

fun natToString :: "nat \<Rightarrow> string" where
  \<comment> \<open>\<open>String(n)\<close> for a non-negative integer\<close>
  "natToString n = (if n < 10 then [digitChar n] else natToString (n div 10) @ [digitChar (n mod 10)])"

declare natToString.simps [simp del]

definition addLeadingZeros :: "nat \<Rightarrow> nat \<Rightarrow> string" where
  \<comment> \<open>date-fns: \<open>String(n).padStart(targetLength, '0')\<close>\<close>
  "addLeadingZeros n targetLength =
     replicate (targetLength - length (natToString n)) (CHR ''0'') @ natToString n"

section \<open>Calendar dates (date-fns)\<close>

text \<open>
  The source imports \<open>parse\<close>, \<open>isValid\<close>, \<open>addMonths\<close>, \<open>addYears\<close> and \<open>format\<close> from
  date-fns. A \<open>Date\<close> is read and written there through its local fields only
  (\<open>setFullYear\<close>, \<open>setMonth\<close>, \<open>setDate\<close>, \<open>setHours\<close>, \<open>getFullYear\<close>, \<open>getMonth\<close>,
  \<open>getDate\<close>), so it is modelled by the local calendar day it shows (year, month 1..12,
  day) in the proleptic Gregorian calendar. An invalid \<open>Date\<close> is \<open>None\<close>.
\<close>

record date =
  year :: nat
  month :: nat
  day :: nat

definition isLeapYear :: "nat \<Rightarrow> bool" where
  "isLeapYear y \<longleftrightarrow> y mod 400 = 0 \<or> (y mod 4 = 0 \<and> y mod 100 \<noteq> 0)"

definition daysInMonth :: "nat \<Rightarrow> nat \<Rightarrow> nat" where
  "daysInMonth y m =
     (if m = 2 then (if isLeapYear y then 29 else 28)
      else if m = 4 \<or> m = 6 \<or> m = 9 \<or> m = 11 then 30 else 31)"

text \<open>
  The local fields of a \<open>Date\<close> depend on the time zone of the host. Setting the local
  fields to a day that the zone's clock skips gives a \<open>Date\<close> that shows a later day:
  in Pacific/Apia, where 30 December 2011 was left out, \<open>new Date(2011, 11, 30)\<close> shows
  31 December 2011. A time zone is given here by this one effect: \<open>tz d\<close> is the local
  day shown by the \<open>Date\<close> that is set to the local day \<open>d\<close>; it is \<open>d\<close> for every
  day that exists in the zone. Where the zone skips only an hour of a day, the \<open>Date\<close>
  stays on that day.
\<close>

type_synonym timeZone = "date \<Rightarrow> date"

definition utc :: timeZone where
  \<comment> \<open>a zone without clock changes\<close>
  "utc d = d"

definition pacificApia :: timeZone where
  \<comment> \<open>Samoa moved across the date line at the end of 29 December 2011\<close>
  "pacificApia d =
     (if d = \<lparr>year = 2011, month = 12, day = 30\<rparr> then \<lparr>year = 2011, month = 12, day = 31\<rparr>
      else d)"

definition parseNDigits :: "nat \<Rightarrow> string \<Rightarrow> (nat \<times> string) option" where
  \<comment> \<open>date-fns: the match of \<open>^\d{1,n}\<close>, as its value and the rest of the input\<close>
  "parseNDigits n s =
     (let ds = takeWhile isDigit (take n s)
      in if ds = [] then None else Some (digitsToNat 0 ds, drop (length ds) s))"

definition parseDate :: "timeZone \<Rightarrow> string \<Rightarrow> date option" where
  \<comment> \<open>\<open>parse(s, 'yyyyMMdd', new Date())\<close> followed by \<open>isValid\<close>: the tokens \<open>yyyy\<close>,
      \<open>MM\<close>, \<open>dd\<close> read up to 4, 2 and 2 digits; what remains may only be white space;
      the year must be positive, the month and the day must exist; the \<open>Date\<close> is then set
      to that local day at 00:00\<close>
  "parseDate tz s =
     (case parseNDigits 4 s of None \<Rightarrow> None
      | Some (y, r1) \<Rightarrow>
     (case parseNDigits 2 r1 of None \<Rightarrow> None
      | Some (m, r2) \<Rightarrow>
     (case parseNDigits 2 r2 of None \<Rightarrow> None
      | Some (d, r3) \<Rightarrow>
        if \<not> list_all isSpace r3 then None
        else if \<not> 0 < y then None
        else if \<not> (1 \<le> m \<and> m \<le> 12) then None
        else if \<not> (1 \<le> d \<and> d \<le> daysInMonth y m) then None
        else Some (tz \<lparr>year = y, month = m, day = d\<rparr>))))"

definition maxMonthIndex :: nat where
  \<comment> \<open>the last month that lies wholly within the range of a \<open>Date\<close> (8.64e15 ms around
      the epoch, which ends on 13 September 275760): August 275760\<close>
  "maxMonthIndex = 275760 * 12 + 7"

definition addMonths :: "timeZone \<Rightarrow> date \<Rightarrow> nat \<Rightarrow> date option" where
  \<comment> \<open>date-fns: \<open>endOfDesiredMonth\<close> is the \<open>Date\<close> set to day 0 of the month after the
      desired one, that is to the last day of the desired month; it is the result when the
      day of the month of \<open>dt\<close> is not below its day of the month, otherwise \<open>dt\<close> is set
      to the year and the month of \<open>endOfDesiredMonth\<close> and keeps its day of the month; an
      invalid \<open>Date\<close> beyond the range\<close>
  "addMonths tz dt amount =
     (let idx = year dt * 12 + (month dt - 1) + amount;
          y = idx div 12;
          m = idx mod 12 + 1;
          dayOfMonth = day dt;
          endOfDesiredMonth = tz \<lparr>year = y, month = m, day = daysInMonth y m\<rparr>
      in if amount = 0 then Some dt
         else if maxMonthIndex < idx then None
         else if day endOfDesiredMonth \<le> dayOfMonth then Some endOfDesiredMonth
         else Some (tz \<lparr>year = year endOfDesiredMonth, month = month endOfDesiredMonth,
                          day = dayOfMonth\<rparr>))"

definition addYears :: "timeZone \<Rightarrow> date \<Rightarrow> nat \<Rightarrow> date option" where
  "addYears tz dt amount = addMonths tz dt (amount * 12)"

definition formatDate :: "date \<Rightarrow> string" where
  \<comment> \<open>\<open>format(d, 'yyyyMMdd')\<close>, from the local fields\<close>
  "formatDate dt =
     addLeadingZeros (year dt) 4 @ addLeadingZeros (month dt) 2 @ addLeadingZeros (day dt) 2"

section \<open>Expiration calculator\<close>

definition periodMatch :: "string \<Rightarrow> (nat \<times> char) option" where
  \<comment> \<open>\<open>s.match(/^(\d+)([my])$/)\<close>: the amount and the unit\<close>
  "periodMatch s =
     (if s = [] then None
      else let ds = butlast s; u = last s
           in if ds \<noteq> [] \<and> list_all isDigit ds \<and> (u = CHR ''m'' \<or> u = CHR ''y'')
              then Some (digitsToNat 0 ds, u) else None)"

definition calculateExpirationDate ::
  "timeZone \<Rightarrow> string option \<Rightarrow> string option \<Rightarrow> string" where
  \<comment> \<open>\<open>tz\<close> is the time zone of the host\<close>
  "calculateExpirationDate tz approvalDateStr validityPeriod =
     (if falsy approvalDateStr \<or> falsy validityPeriod \<or> approvalDateStr = Some ''-''
         \<or> validityPeriod = Some ''-''
         \<or> map_option (toLowerCase \<circ> trim) approvalDateStr = Some ''rolling''
      then (if map_option (toLowerCase \<circ> trim) approvalDateStr = Some ''rolling''
            then ''Rolling'' else ''-'')
      else
        (case parseDate tz (trim (the approvalDateStr)) of
           None \<Rightarrow> ''-''
         | Some approvalDate \<Rightarrow>
        (case periodMatch (toLowerCase (trim (the validityPeriod))) of
           None \<Rightarrow> ''-''
         | Some (amount, unit) \<Rightarrow>
        (case (if unit = CHR ''y'' then addYears tz approvalDate amount
               else addMonths tz approvalDate amount) of
           None \<Rightarrow> ''-''
         | Some expirationDateValue \<Rightarrow> formatDate expirationDateValue))))"

section \<open>The Gregorian calendar\<close>

text \<open>
  What a valid \<open>YYYYMMDD\<close> calendar date is, written down independently of date-fns: the
  lengths of the twelve months as a table, February one day longer in the years divisible
  by 4 that are not divisible by 100 or are divisible by 400. Claims about dates are
  stated with these.
\<close>

definition calendarLeapYear :: "nat \<Rightarrow> bool" where
  "calendarLeapYear y \<longleftrightarrow> 4 dvd y \<and> (\<not> 100 dvd y \<or> 400 dvd y)"

definition calendarDays :: "nat \<Rightarrow> nat \<Rightarrow> nat" where
  \<comment> \<open>the number of days of month \<open>m\<close> (1..12) of year \<open>y\<close>\<close>
  "calendarDays y m =
     (if m = 2 \<and> calendarLeapYear y then 29
      else [31, 28, 31, 30, 31, 30, 31, 31, 30, 31, 30, 31] ! (m - 1))"

definition isCalendarDate :: "nat \<Rightarrow> nat \<Rightarrow> nat \<Rightarrow> bool" where
  "isCalendarDate y m d \<longleftrightarrow> 1 \<le> y \<and> 1 \<le> m \<and> m \<le> 12 \<and> 1 \<le> d \<and> d \<le> calendarDays y m"

section \<open>Data model\<close>

text \<open>
  A \<open>CsvRow\<close> is an object with string properties; \<open>row[k]\<close> is \<open>rowGet row k\<close>, with
  \<open>None\<close> for \<open>undefined\<close>. A \<open>Map\<close> with string keys is the list of its entries in
  insertion order; \<open>mapSet\<close> keeps the keys distinct, as \<open>Map.prototype.set\<close> does.
\<close>

type_synonym CsvRow = "(string \<times> string) list"

definition rowGet :: "CsvRow \<Rightarrow> string \<Rightarrow> string option" where
  "rowGet row k = map_of row k"

fun rowSet :: "CsvRow \<Rightarrow> string \<Rightarrow> string \<Rightarrow> CsvRow" where
  \<comment> \<open>\<open>row[k] = v\<close>\<close>
  "rowSet [] k v = [(k, v)]"
| "rowSet ((k', v') # row) k v = (if k' = k then (k, v) # row else (k', v') # rowSet row k v)"

type_synonym 'v jsMap = "(string \<times> 'v) list"

definition mapHas :: "'v jsMap \<Rightarrow> string \<Rightarrow> bool" where
  "mapHas m k \<longleftrightarrow> k \<in> set (map fst m)"

definition mapGet :: "'v jsMap \<Rightarrow> string \<Rightarrow> 'v option" where
  "mapGet m k = map_of m k"


definition mapKeys :: "'v jsMap \<Rightarrow> string list" where
  "mapKeys m = map fst m"


definition wfMap :: "'v jsMap \<Rightarrow> bool" where
  \<comment> \<open>what every \<open>Map\<close> satisfies: no key occurs twice\<close>
  "wfMap m \<longleftrightarrow> distinct (map fst m)"

record OrgConf =
  orgName :: string
  subDetails :: string

record DataSource =
  baseName :: string
  dataMap :: "CsvRow jsMap"

text \<open>
  The \<open>AppData\<close> of the session route has all four fields; the one of the v1 route has no
  \<open>paymentMap\<close>, and nothing in that route reads it.
\<close>

record AppData =
  dataSources :: "DataSource list"
  additionalMap :: "CsvRow jsMap"
  paymentMap :: "CsvRow jsMap"
  confData :: "OrgConf jsMap"

section \<open>Base names\<close>

definition stripTrailingSlashes :: "string \<Rightarrow> string" where
  "stripTrailingSlashes p = rev (dropWhile (\<lambda>c. c = CHR ''/'') (rev p))"

definition lastComponent :: "string \<Rightarrow> string" where
  "lastComponent p = rev (takeWhile (\<lambda>c. c \<noteq> CHR ''/'') (rev (stripTrailingSlashes p)))"

definition pathBasename :: "string \<Rightarrow> string \<Rightarrow> string" where
  \<comment> \<open>Node's POSIX \<open>path.basename(p, ext)\<close>: the last component of the path, without the
      extension when the component ends with it and is more than it\<close>
  "pathBasename p ext =
     (if ext \<noteq> [] \<and> p = ext then []
      else let c = lastComponent p
           in if ext \<noteq> [] \<and> endsWith c ext \<and> c \<noteq> ext
              then take (length c - length ext) c else c)"

definition getBaseName :: "string \<Rightarrow> string" where
  \<comment> \<open>\<open>fileName.match(/^([a-zA-Z0-9]+)/)?.[1] ?? ''\<close>\<close>
  "getBaseName filePath = takeWhile isAlnum (pathBasename filePath ''.csv'')"

section \<open>Exact search\<close>

datatype Status = Valid | Invalid

record ExactResult =
  email :: string
  status :: Status
  organization :: string
  subscriptionDetails :: string
  deviceLimit :: nat
  approver :: string
  approvalDate :: string
  expirationDate :: string

fun joinWith :: "string \<Rightarrow> string list \<Rightarrow> string" where
  \<comment> \<open>\<open>xs.join(sep)\<close>\<close>
  "joinWith sep [] = []"
| "joinWith sep [x] = x"
| "joinWith sep (x # y # ys) = x @ sep @ joinWith sep (y # ys)"

definition foundInOrgs :: "AppData \<Rightarrow> string \<Rightarrow> OrgConf list" where
  "foundInOrgs appData lowerCaseEmail =
     List.map_filter (\<lambda>ds. mapGet (confData appData) (baseName ds))
       (filter (\<lambda>ds. mapHas (dataMap ds) lowerCaseEmail) (dataSources appData))"

definition applyMainMatch :: "OrgConf list \<Rightarrow> ExactResult \<Rightarrow> ExactResult" where
  \<comment> \<open>the block \<open>if (foundInOrgs.length > 0)\<close>\<close>
  "applyMainMatch found result =
     (if length found > 0
      then result\<lparr>status := Valid,
                  organization := joinWith '' & '' (map orgName found),
                  subscriptionDetails := joinWith '' & '' (map subDetails found),
                  deviceLimit := (if length found = 1 then 2 else if length found \<ge> 2 then 4 else 0),
                  expirationDate := ''Rolling''\<rparr>
      else result)"

definition applyAdditionalMatch ::
  "timeZone \<Rightarrow> OrgConf jsMap \<Rightarrow> CsvRow \<Rightarrow> ExactResult \<Rightarrow> ExactResult" where
  \<comment> \<open>the block \<open>if (additionalMatch)\<close>\<close>
  "applyAdditionalMatch tz conf additionalMatch result =
     (let rawApprovalDate = map_option trim (rowGet additionalMatch ''rat'');
          validityPeriod = map_option trim (rowGet additionalMatch ''pov'');
          calculatedExpDate = calculateExpirationDate tz rawApprovalDate validityPeriod;
          orgFromFile = map_option trim (rowGet additionalMatch ''Org'');
          result1 =
            (if status result = Invalid \<and> calculatedExpDate \<noteq> [] \<and> calculatedExpDate \<noteq> ''-''
             then (case mapGet conf (if \<not> falsy orgFromFile then getBaseName (the orgFromFile) else [])
                   of None \<Rightarrow> result
                    | Some c \<Rightarrow> result\<lparr>status := Valid, deviceLimit := 2,
                                       organization := orgName c,
                                       subscriptionDetails := subDetails c\<rparr>)
             else result);
          result2 =
            (if \<not> falsy orgFromFile
             then result1\<lparr>organization :=
                    orElse (map_option orgName (mapGet conf (getBaseName (the orgFromFile))))
                           (the orgFromFile)\<rparr>
             else result1);
          result3 = result2\<lparr>approver := orElse (map_option trim (rowGet additionalMatch ''Approver'')) ''-'',
                             approvalDate := orElse rawApprovalDate ''-''\<rparr>
      in if calculatedExpDate \<noteq> [] \<and> calculatedExpDate \<noteq> ''-''
         then result3\<lparr>expirationDate := calculatedExpDate\<rparr> else result3)"

definition resetInvalid :: "ExactResult \<Rightarrow> ExactResult" where
  \<comment> \<open>the block \<open>if (result.status === 'Invalid')\<close>\<close>
  "resetInvalid result =
     (if status result = Invalid
      then result\<lparr>organization := ''-'', deviceLimit := 0, subscriptionDetails := ''-'',
                  expirationDate := ''-'', approver := ''-'', approvalDate := ''-''\<rparr>
      else result)"

definition performExactSearch :: "timeZone \<Rightarrow> string \<Rightarrow> AppData \<Rightarrow> ExactResult" where
  "performExactSearch tz searchEmail appData =
     (let lowerCaseEmail = toLowerCase searchEmail;
          result = \<lparr>email = searchEmail, status = Invalid, organization = ''-'',
                    subscriptionDetails = ''-'', deviceLimit = 0, approver = ''-'',
                    approvalDate = ''-'', expirationDate = ''-''\<rparr>;
          result1 = applyMainMatch (foundInOrgs appData lowerCaseEmail) result;
          result2 = (case mapGet (additionalMap appData) lowerCaseEmail of
                       None \<Rightarrow> result1
                     | Some additionalMatch \<Rightarrow>
                         applyAdditionalMatch tz (confData appData) additionalMatch result1)
      in resetInvalid result2)"

section \<open>Fuzzy search\<close>

text \<open>
  The three bodies a fuzzy search answers with. Each is a fixed two-language template of
  the source; \<open>ErrNoMatches\<close> carries the one string the template interpolates.
\<close>

datatype Body = ErrFuzzyTooShort | MsgPotentialMatches | ErrNoMatches string

fun anyKeyIncludes :: "string list \<Rightarrow> string \<Rightarrow> bool" where
  \<comment> \<open>the loop over the keys of one index, left at the first hit\<close>
  "anyKeyIncludes [] searchTerm = False"
| "anyKeyIncludes (k # ks) searchTerm =
     (if strIncludes k searchTerm then True else anyKeyIncludes ks searchTerm)"

fun foundInSources :: "DataSource list \<Rightarrow> string \<Rightarrow> bool" where
  "foundInSources [] searchTerm = False"
| "foundInSources (ds # dss) searchTerm =
     (if anyKeyIncludes (mapKeys (dataMap ds)) searchTerm then True
      else foundInSources dss searchTerm)"

definition fuzzyFound :: "string \<Rightarrow> AppData \<Rightarrow> bool" where
  "fuzzyFound searchTerm appData =
     (if foundInSources (dataSources appData) searchTerm then True
      else anyKeyIncludes (mapKeys (additionalMap appData)) searchTerm)"

definition performFuzzySearch :: "string \<Rightarrow> AppData \<Rightarrow> Body \<times> nat" where
  \<comment> \<open>the v1 route: the body and the HTTP status\<close>
  "performFuzzySearch searchTerm appData =
     (if length searchTerm < 3 then (ErrFuzzyTooShort, 400)
      else if fuzzyFound searchTerm appData then (MsgPotentialMatches, 200)
      else (ErrNoMatches searchTerm, 404))"

definition POST_fuzzy :: "string \<Rightarrow> AppData \<Rightarrow> Body \<times> nat" where
  \<comment> \<open>the branch \<open>type === 'fuzzy'\<close> of the session route's \<open>POST\<close>\<close>
  "POST_fuzzy searchEmail appData =
     (let searchTerm = toLowerCase (trim searchEmail)
      in if length searchTerm < 3 then (ErrFuzzyTooShort, 200)
         else if fuzzyFound searchTerm appData then (MsgPotentialMatches, 200)
         else (ErrNoMatches searchEmail, 200))"

section \<open>Expired accounts\<close>

record ExpiredAccountInfo =
  exp_email :: string
  exp_organization :: string
  exp_approver :: string
  exp_expirationDate :: string

definition isInMainSource :: "DataSource list \<Rightarrow> string \<Rightarrow> bool" where
  \<comment> \<open>\<open>dataSources.some(ds => ds.dataMap.has(email))\<close>\<close>
  "isInMainSource dss e \<longleftrightarrow> list_ex (\<lambda>ds. mapHas (dataMap ds) e) dss"

fun expiredLoop ::
  "timeZone \<Rightarrow> DataSource list \<Rightarrow> string \<Rightarrow> (string \<times> CsvRow) list \<Rightarrow> ExpiredAccountInfo list
     \<Rightarrow> ExpiredAccountInfo list" where
  "expiredLoop tz dss today [] expiredAccounts = expiredAccounts"
| "expiredLoop tz dss today ((e, row) # entries) expiredAccounts =
     (let expDate = calculateExpirationDate tz (rowGet row ''rat'') (rowGet row ''pov'')
      in if expDate \<noteq> [] \<and> expDate \<noteq> ''-'' \<and> expDate \<noteq> ''Rolling'' \<and> strLe expDate today
         then (if isInMainSource dss e
               then expiredLoop tz dss today entries
                      (expiredAccounts @
                        [\<lparr>exp_email = e,
                          exp_organization = orElse (rowGet row ''Org'') ''Unknown'',
                          exp_approver = orElse (rowGet row ''Approver'') ''-'',
                          exp_expirationDate = expDate\<rparr>])
               else expiredLoop tz dss today entries expiredAccounts)
         else expiredLoop tz dss today entries expiredAccounts)"

definition getExpiredAccounts ::
  "timeZone \<Rightarrow> AppData \<Rightarrow> string \<Rightarrow> string option \<Rightarrow> ExpiredAccountInfo list" where
  \<comment> \<open>\<open>today\<close> is \<open>format(new Date(), 'yyyyMMdd')\<close>\<close>
  "getExpiredAccounts tz appData today approverFilter =
     (let expiredAccounts = expiredLoop tz (dataSources appData) today (additionalMap appData) []
      in if \<not> falsy approverFilter \<and> toLowerCase (the approverFilter) \<noteq> ''admin''
         then filter (\<lambda>account. toLowerCase (exp_approver account)
                                  = toLowerCase (the approverFilter)) expiredAccounts
         else expiredAccounts)"

section \<open>Quick audit\<close>

datatype Reason = NotRegistered | NotPaid

record QuickAuditAccountInfo =
  qa_email :: string
  qa_rat :: string
  qa_approver :: string
  qa_pov :: string
  qa_reason :: Reason

definition parseInt :: "string \<Rightarrow> int option" where
  \<comment> \<open>\<open>parseInt(s, 10)\<close>, with \<open>None\<close> for \<open>NaN\<close>: leading white space is skipped, one
      sign is read, and the digits that follow give the value\<close>
  "parseInt s =
     (let s1 = dropWhile isSpace s;
          neg = (s1 \<noteq> [] \<and> hd s1 = CHR ''-'');
          s2 = (if s1 \<noteq> [] \<and> (hd s1 = CHR ''-'' \<or> hd s1 = CHR ''+'') then tl s1 else s1);
          ds = takeWhile isDigit s2
      in if ds = [] then None
         else Some (if neg then - int (digitsToNat 0 ds) else int (digitsToNat 0 ds)))"

definition NOT_PAID_DATE_THRESHOLD :: int where
  "NOT_PAID_DATE_THRESHOLD = 20250724"

definition ratNumOf :: "string option \<Rightarrow> int option" where
  \<comment> \<open>\<open>ratStr ? parseInt(ratStr, 10) : 0\<close>\<close>
  "ratNumOf ratStr = (if falsy ratStr then Some 0 else parseInt (the ratStr))"

definition belowThreshold :: "int option \<Rightarrow> bool" where
  \<comment> \<open>\<open>!ratNum || ratNum < NOT_PAID_DATE_THRESHOLD\<close>\<close>
  "belowThreshold ratNum \<longleftrightarrow>
     ratNum = None \<or> ratNum = Some 0 \<or> the ratNum < NOT_PAID_DATE_THRESHOLD"

definition setAdd :: "string list \<Rightarrow> string \<Rightarrow> string list" where
  \<comment> \<open>\<open>Set.prototype.add\<close>, the set as the list of its members\<close>
  "setAdd s x = (if x \<in> set s then s else s @ [x])"

type_synonym auditState = "QuickAuditAccountInfo list \<times> string list"

fun notPaidLoop ::
  "AppData \<Rightarrow> (string \<times> CsvRow) list \<Rightarrow> auditState \<Rightarrow> auditState" where
  "notPaidLoop appData [] st = st"
| "notPaidLoop appData ((e, additionalInfo) # entries) (auditAccounts, addedEmails) =
     (let ratStr = map_option trim (rowGet additionalInfo ''rat'');
          ratNum = ratNumOf ratStr
      in if belowThreshold ratNum
         then notPaidLoop appData entries (auditAccounts, addedEmails)
         else if \<not> isInMainSource (dataSources appData) e
         then notPaidLoop appData entries (auditAccounts, addedEmails)
         else if \<not> mapHas (paymentMap appData) e
         then notPaidLoop appData entries
                (auditAccounts @
                   [\<lparr>qa_email = e, qa_rat = orElse ratStr ''-'',
                     qa_approver = orElse (map_option trim (rowGet additionalInfo ''Approver'')) ''-'',
                     qa_pov = orElse (map_option trim (rowGet additionalInfo ''pov'')) ''-'',
                     qa_reason = NotPaid\<rparr>],
                 setAdd addedEmails e)
         else notPaidLoop appData entries (auditAccounts, addedEmails))"

fun notRegisteredKeys :: "AppData \<Rightarrow> string list \<Rightarrow> auditState \<Rightarrow> auditState" where
  \<comment> \<open>the loop over the keys of one DataSource\<close>
  "notRegisteredKeys appData [] st = st"
| "notRegisteredKeys appData (e # keys) (auditAccounts, addedEmails) =
     (if e \<in> set addedEmails
      then notRegisteredKeys appData keys (auditAccounts, addedEmails)
      else if \<not> mapHas (additionalMap appData) e
      then notRegisteredKeys appData keys
             (auditAccounts @
                [\<lparr>qa_email = e, qa_rat = ''-'', qa_approver = ''-'', qa_pov = ''-'',
                  qa_reason = NotRegistered\<rparr>],
              setAdd addedEmails e)
      else notRegisteredKeys appData keys (auditAccounts, addedEmails))"

definition excludedBaseNames :: "string list" where
  "excludedBaseNames = [''blueskyy'', ''parvis'']"

fun notRegisteredLoop :: "AppData \<Rightarrow> DataSource list \<Rightarrow> auditState \<Rightarrow> auditState" where
  "notRegisteredLoop appData [] st = st"
| "notRegisteredLoop appData (dataSource # dss) st =
     (if baseName dataSource \<in> set excludedBaseNames
      then notRegisteredLoop appData dss st
      else notRegisteredLoop appData dss
             (notRegisteredKeys appData (mapKeys (dataMap dataSource)) st))"

definition getQuickAuditAccounts :: "AppData \<Rightarrow> QuickAuditAccountInfo list" where
  "getQuickAuditAccounts appData =
     fst (notRegisteredLoop appData (dataSources appData)
            (notPaidLoop appData (additionalMap appData) ([], [])))"

text \<open>
  What the specification says a fuzzy hit is: some email that is a key of a DataSource
  index or of the AdditionalRecord index has the term as a substring.
\<close>

definition indexedEmails :: "AppData \<Rightarrow> string set" where
  "indexedEmails appData =
     (\<Union>ds \<in> set (dataSources appData). set (mapKeys (dataMap ds)))
       \<union> set (mapKeys (additionalMap appData))"

definition someEmailContains :: "AppData \<Rightarrow> string \<Rightarrow> bool" where
  "someEmailContains appData t \<longleftrightarrow> (\<exists>k \<in> indexedEmails appData. \<exists>p q. k = p @ t @ q)"

section \<open>The cache of the data repository\<close>

text \<open>
  The module variables \<open>cachedData\<close> and \<open>dataPromise\<close>, with two ghost fields: the
  loads that were started and whose handler has not run yet (the loads in flight), and
  the number of loads started so far, which also names the next promise. JavaScript
  runs \<open>getData\<close> and each promise handler to completion, one at a time, so the
  behaviour of the module is the set of sequences of three events: a call of
  \<open>getData\<close>, the \<open>then\<close> handler of a load that succeeded with some data, and the
  \<open>catch\<close> handler of a load that failed.
\<close>

record repository =
  cachedData :: "AppData option"
  dataPromise :: "nat option"
  inFlight :: "nat list"
  loadsStarted :: nat

definition initialRepository :: repository where
  "initialRepository = \<lparr>cachedData = None, dataPromise = None, inFlight = [], loadsStarted = 0\<rparr>"

datatype promise = ResolvedWith AppData | Pending nat

definition getData :: "repository \<Rightarrow> promise \<times> repository" where
  "getData s =
     (case cachedData s of
        Some d \<Rightarrow> (ResolvedWith d, s)
      | None \<Rightarrow>
     (case dataPromise s of
        Some p \<Rightarrow> (Pending p, s)
      | None \<Rightarrow>
          (Pending (loadsStarted s),
           s\<lparr>dataPromise := Some (loadsStarted s),
             inFlight := loadsStarted s # inFlight s,
             loadsStarted := Suc (loadsStarted s)\<rparr>)))"

definition onLoaded :: "nat \<Rightarrow> AppData \<Rightarrow> repository \<Rightarrow> repository" where
  \<comment> \<open>\<open>.then(data => { cachedData = data; return data; })\<close> of load \<open>p\<close>\<close>
  "onLoaded p d s = s\<lparr>cachedData := Some d, inFlight := removeAll p (inFlight s)\<rparr>"

definition onFailed :: "nat \<Rightarrow> repository \<Rightarrow> repository" where
  \<comment> \<open>\<open>.catch(err => { dataPromise = null; throw err; })\<close> of load \<open>p\<close>\<close>
  "onFailed p s = s\<lparr>dataPromise := None, inFlight := removeAll p (inFlight s)\<rparr>"

datatype event = Call | LoadSucceeds nat AppData | LoadFails nat

definition step :: "repository \<Rightarrow> event \<Rightarrow> repository option" where
  \<comment> \<open>a handler runs only for a load that is in flight\<close>
  "step s e =
     (case e of
        Call \<Rightarrow> Some (snd (getData s))
      | LoadSucceeds p d \<Rightarrow> if p \<in> set (inFlight s) then Some (onLoaded p d s) else None
      | LoadFails p \<Rightarrow> if p \<in> set (inFlight s) then Some (onFailed p s) else None)"

fun exec :: "repository \<Rightarrow> event list \<Rightarrow> repository option" where
  "exec s [] = Some s"
| "exec s (e # es) = (case step s e of None \<Rightarrow> None | Some s' \<Rightarrow> exec s' es)"

datatype cacheState = Empty | Loading | Loaded

definition cacheStateOf :: "repository \<Rightarrow> cacheState" where
  "cacheStateOf s =
     (if cachedData s \<noteq> None then Loaded else if dataPromise s \<noteq> None then Loading else Empty)"

section \<open>CSV line parser\<close>

definition dquote :: char where
  "dquote = CHR 0x22"

fun parseCsvLoop :: "string \<Rightarrow> string list \<Rightarrow> string \<Rightarrow> bool \<Rightarrow> string list" where
  \<comment> \<open>the loop of \<open>parseCsvLine\<close> over the rest of the line, with \<open>values\<close>, \<open>currentVal\<close>
      and \<open>inQuotes\<close>; the final \<open>values.push(currentVal)\<close> is the empty case\<close>
  "parseCsvLoop [] vals currentVal inQuotes = vals @ [currentVal]"
| "parseCsvLoop (c # rest) vals currentVal inQuotes =
     (if c = dquote
      then (case rest of
              c' # rest' \<Rightarrow>
                if inQuotes \<and> c' = dquote
                then parseCsvLoop rest' vals (currentVal @ [dquote]) inQuotes
                else parseCsvLoop rest vals currentVal (\<not> inQuotes)
            | [] \<Rightarrow> parseCsvLoop rest vals currentVal (\<not> inQuotes))
      else if c = CHR '','' \<and> \<not> inQuotes
      then parseCsvLoop rest (vals @ [currentVal]) [] inQuotes
      else parseCsvLoop rest vals (currentVal @ [c]) inQuotes)"

definition parseCsvLine :: "string \<Rightarrow> string list" where
  "parseCsvLine line = map trim (parseCsvLoop line [] [] False)"

section \<open>Tabular loader\<close>


fun splitLines :: "string \<Rightarrow> string \<Rightarrow> string list" where
  \<comment> \<open>\<open>s.split(/\r?\n/)\<close>, with the line read so far\<close>
  "splitLines cur [] = [cur]"
| "splitLines cur (x # xs) =
     (if x = CHR 0x0A then cur # splitLines [] xs
      else if x = CHR 0x0D
      then (case xs of
              y # ys \<Rightarrow> if y = CHR 0x0A then cur # splitLines [] ys
                        else splitLines (cur @ [x]) xs
            | [] \<Rightarrow> splitLines (cur @ [x]) xs)
      else splitLines (cur @ [x]) xs)"

definition isBlankLine :: "string \<Rightarrow> bool" where
  \<comment> \<open>\<open>/^\s*,*\s*$/.test(line)\<close>\<close>
  "isBlankLine line \<longleftrightarrow>
     dropWhile isSpace (dropWhile (\<lambda>c. c = CHR '','') (dropWhile isSpace line)) = []"

fun indexOf :: "string list \<Rightarrow> string \<Rightarrow> nat option" where
  \<comment> \<open>\<open>xs.indexOf(x)\<close>, with \<open>None\<close> for -1\<close>
  "indexOf [] x = None"
| "indexOf (y # ys) x = (if y = x then Some 0 else map_option Suc (indexOf ys x))"

fun buildRow :: "string list \<Rightarrow> nat \<Rightarrow> string list \<Rightarrow> CsvRow \<times> bool \<Rightarrow> CsvRow \<times> bool" where
  \<comment> \<open>\<open>headers.forEach((header, index) => ...)\<close>, from \<open>index\<close> on, with \<open>row\<close> and
      \<open>rowHasData\<close>\<close>
  "buildRow [] index vals st = st"
| "buildRow (header # headers) index vals (row, rowHasData) =
     (let v = trim (if index < length vals then vals ! index else [])
      in buildRow headers (Suc index) vals (rowSet row header v, rowHasData \<or> v \<noteq> []))"

definition processLine :: "string list \<Rightarrow> string \<Rightarrow> string \<Rightarrow> CsvRow list" where
  \<comment> \<open>one turn of the loop over the data lines: the rows it pushes, none when the line is
      skipped\<close>
  "processLine headers emailHeaderName line =
     (if line = [] \<or> isBlankLine line then []
      else let vals = parseCsvLine line
           in if length vals < length headers then []
              else (case indexOf headers emailHeaderName of
                      None \<Rightarrow> []
                    | Some emailIndex \<Rightarrow>
                        if vals ! emailIndex = [] then []
                        else let (row, rowHasData) = buildRow headers 0 vals ([], False)
                             in if rowHasData then [row] else []))"

fun dataLinesLoop :: "string list \<Rightarrow> string \<Rightarrow> string list \<Rightarrow> CsvRow list \<Rightarrow> CsvRow list" where
  "dataLinesLoop headers emailHeaderName [] data = data"
| "dataLinesLoop headers emailHeaderName (line # lines) data =
     dataLinesLoop headers emailHeaderName lines
       (data @ processLine headers emailHeaderName line)"

definition ADDITIONAL_CSV_BASENAME :: string where
  "ADDITIONAL_CSV_BASENAME = ''additional''"

definition PAYMENT_CSV_BASENAME :: string where
  "PAYMENT_CSV_BASENAME = ''payment''"

definition EXPECTED_MAIN_HEADERS :: "string list" where
  "EXPECTED_MAIN_HEADERS = [''Email'', ''Product Configurations'']"

definition EXPECTED_ADDITIONAL_HEADERS :: "string list" where
  "EXPECTED_ADDITIONAL_HEADERS = [''Email'', ''Approver'', ''rat'', ''pov'', ''Org'']"

definition parseCsvLines :: "string list \<Rightarrow> string \<Rightarrow> string list \<Rightarrow> CsvRow list" where
  \<comment> \<open>\<open>parseCsvData\<close> from the list \<open>lines\<close> on\<close>
  "parseCsvLines lines filePathForLogging expectedHeaders =
     (if lines = [] \<or> trim (hd lines) = [] then []
      else let headers = filter (\<lambda>h. h \<noteq> []) (map trim (parseCsvLine (hd lines)))
           in if headers = [] then []
              else let lowerCaseHeaders = map toLowerCase headers;
                       missingHeaders = filter (\<lambda>eh. toLowerCase eh \<notin> set lowerCaseHeaders)
                                          expectedHeaders;
                       isAdditionalFile = strIncludes filePathForLogging ADDITIONAL_CSV_BASENAME;
                       isOrgHeaderOptional =
                         (isAdditionalFile \<and> list_all (\<lambda>h. toLowerCase h = ''org'') missingHeaders)
                   in if missingHeaders \<noteq> [] \<and> \<not> isOrgHeaderOptional then []
                      else if length lines = 1 then []
                      else (case find (\<lambda>h. toLowerCase h = ''email'') headers of
                              None \<Rightarrow> []
                            | Some emailHeaderName \<Rightarrow>
                                dataLinesLoop headers emailHeaderName (tl lines) []))"

definition parseCsvData :: "string \<Rightarrow> string \<Rightarrow> string list \<Rightarrow> CsvRow list" where
  \<comment> \<open>the loader of the v1 route and of the session route. Their test for a leading
      byte-order mark (code unit 0xFEFF) is false for every string modelled here, so
      \<open>cleanText\<close> is \<open>text\<close>. No operation of the source function can throw on a string,
      and its two \<open>catch\<close> blocks are never entered: returning normally is being a total
      function.\<close>
  "parseCsvData text filePathForLogging expectedHeaders =
     parseCsvLines (splitLines [] (trim text)) filePathForLogging expectedHeaders"

section \<open>The loader of the standalone count endpoint\<close>

definition count_processLine :: "string list \<Rightarrow> string \<Rightarrow> CsvRow list" where
  "count_processLine headers line =
     (if line = [] \<or> isBlankLine line then []
      else let vals = parseCsvLine line
           in if length vals < length headers then []
              else let (row, rowHasData) = buildRow headers 0 vals ([], False)
                   in if rowHasData then [row] else [])"

fun count_dataLinesLoop :: "string list \<Rightarrow> string list \<Rightarrow> CsvRow list \<Rightarrow> CsvRow list" where
  "count_dataLinesLoop headers [] data = data"
| "count_dataLinesLoop headers (line # lines) data =
     count_dataLinesLoop headers lines (data @ count_processLine headers line)"

definition count_parseCsvData :: "string \<Rightarrow> string \<Rightarrow> string list \<Rightarrow> CsvRow list" where
  \<comment> \<open>the source tests for the three characters 0xEF 0xBB 0xBF and drops one\<close>
  "count_parseCsvData text filePathForLogging expectedHeaders =
     (let cleanText = (if isPrefixOf [CHR 0xEF, CHR 0xBB, CHR 0xBF] text then drop 1 text else text);
          lines = splitLines [] (trim cleanText)
      in if lines = [] \<or> trim (hd lines) = [] then []
         else let headers = filter (\<lambda>h. h \<noteq> []) (map trim (parseCsvLine (hd lines)))
              in if headers = [] then []
                 else if length lines = 1 then []
                 else count_dataLinesLoop headers (tl lines) [])"

section \<open>The directory and the v1 data repository\<close>















section \<open>User count\<close>











section \<open>Example inputs\<close>

text \<open>Concrete directories' contents, used to run the definitions above.\<close>

definition alphaConf :: "OrgConf jsMap" where
  "alphaConf = [(''alpha'', \<lparr>orgName = ''Alpha School'', subDetails = ''All Apps plan''\<rparr>),
                (''beta'', \<lparr>orgName = ''Beta College'', subDetails = ''Single App''\<rparr>)]"

definition bobRow :: "string \<Rightarrow> string \<Rightarrow> string \<Rightarrow> CsvRow" where
  "bobRow rat pov org =
     [(''Email'', ''bob@x.com''), (''Approver'', ''carol''), (''rat'', rat), (''pov'', pov),
      (''Org'', org)]"

definition mainRow :: "string \<Rightarrow> CsvRow" where
  "mainRow e = [(''Email'', e), (''Product Configurations'', ''All Apps'')]"

definition additionalOnly :: "string \<Rightarrow> AppData" where
  \<comment> \<open>bob is in no DataSource, and in the AdditionalRecord with the given \<open>rat\<close>\<close>
  "additionalOnly rat =
     \<lparr>dataSources = [\<lparr>baseName = ''alpha'', dataMap = [(''ann@x.com'', mainRow ''ann@x.com'')]\<rparr>],
      additionalMap = [(''bob@x.com'', bobRow rat ''12m'' ''alpha'')],
      paymentMap = [],
      confData = alphaConf\<rparr>"

definition inMainWithHint :: "string \<Rightarrow> AppData" where
  \<comment> \<open>bob is in the DataSources alpha and beta, and in the AdditionalRecord with the
      given Org hint\<close>
  "inMainWithHint org =
     \<lparr>dataSources = [\<lparr>baseName = ''alpha'', dataMap = [(''bob@x.com'', mainRow ''bob@x.com'')]\<rparr>,
                     \<lparr>baseName = ''beta'', dataMap = [(''bob@x.com'', mainRow ''bob@x.com'')]\<rparr>],
      additionalMap = [(''bob@x.com'', bobRow ''20240101'' ''12m'' org)],
      paymentMap = [],
      confData = alphaConf\<rparr>"

definition auditData :: "string \<Rightarrow> AppData" where
  \<comment> \<open>bob and ann are in both DataSources; bob alone is in the AdditionalRecord, with the
      given \<open>rat\<close>; nobody has paid\<close>
  "auditData rat =
     \<lparr>dataSources =
        [\<lparr>baseName = ''alpha'', dataMap = [(''bob@x.com'', mainRow ''bob@x.com''),
                                             (''ann@x.com'', mainRow ''ann@x.com'')]\<rparr>,
         \<lparr>baseName = ''beta'', dataMap = [(''ann@x.com'', mainRow ''ann@x.com''),
                                            (''bob@x.com'', mainRow ''bob@x.com'')]\<rparr>],
      additionalMap = [(''bob@x.com'', bobRow rat ''12m'' ''alpha'')],
      paymentMap = [],
      confData = alphaConf\<rparr>"


definition sampleCsv :: string where
  \<comment> \<open>a main export whose third line has one field and whose fourth has no email\<close>
  "sampleCsv =
     ''Email,Product Configurations'' @ [CHR 0x0A] @ ''bob@x.com,All Apps'' @ [CHR 0x0A]
       @ ''broken'' @ [CHR 0x0A] @ '',Single App'' @ [CHR 0x0A] @ ''ann@x.com,Single App''"


section \<open>Invariants\<close>

text \<open>
  The invariant of the two loops of the quick audit: \<open>addedEmails\<close> holds exactly the
  emails of the accounts pushed so far, and no two of these accounts share an email.
\<close>

definition auditInv :: "auditState \<Rightarrow> bool" where
  "auditInv st \<longleftrightarrow> set (snd st) = set (map qa_email (fst st)) \<and> distinct (map qa_email (fst st))"

text \<open>
  The invariant of the cache: the load in flight, if any, is the one \<open>dataPromise\<close> names,
  and there is one exactly in the state loading.
\<close>

definition cacheInv :: "repository \<Rightarrow> bool" where
  "cacheInv s \<longleftrightarrow>
     (case cacheStateOf s of
        Empty \<Rightarrow> inFlight s = []
      | Loading \<Rightarrow> inFlight s = [the (dataPromise s)]
      | Loaded \<Rightarrow> inFlight s = [])"
section \<open>Decimal strings and dates: auxiliary facts\<close>

lemma code_digitChar: "n < 10 \<Longrightarrow> code (digitChar n) = 48 + n"
  by (simp add: code_def digitChar_def)

lemma isDigit_digitChar: "n < 10 \<Longrightarrow> isDigit (digitChar n)"
  by (simp add: isDigit_def code_digitChar)

lemma digitVal_digitChar: "n < 10 \<Longrightarrow> digitVal (digitChar n) = n"
  by (simp add: digitVal_def code_digitChar)

lemma digitChar_digitVal: "isDigit c \<Longrightarrow> digitChar (digitVal c) = c"
  by (simp add: digitVal_def digitChar_def isDigit_def code_def)

lemma digitVal_less: "isDigit c \<Longrightarrow> digitVal c < 10"
  by (auto simp: digitVal_def isDigit_def)

lemma digitsToNat_acc: "digitsToNat acc ds = acc * 10 ^ length ds + digitsToNat 0 ds"
proof (induction ds arbitrary: acc)
  case Nil
  then show ?case by simp
next
  case (Cons c cs)
  have "digitsToNat acc (c # cs) = digitsToNat (acc * 10 + digitVal c) cs" by simp
  also have "\<dots> = (acc * 10 + digitVal c) * 10 ^ length cs + digitsToNat 0 cs"
    by (rule Cons.IH)
  also have "\<dots> = acc * 10 ^ length (c # cs) + (digitVal c * 10 ^ length cs + digitsToNat 0 cs)"
    by (simp add: algebra_simps)
  also have "digitVal c * 10 ^ length cs + digitsToNat 0 cs = digitsToNat 0 (c # cs)"
    using Cons.IH [of "digitVal c"] by simp
  finally show ?case .
qed

lemma digitsToNat_app: "digitsToNat acc (a @ b) = digitsToNat (digitsToNat acc a) b"
  by (induction a arbitrary: acc) simp_all

lemma digitsToNat_append:
  "digitsToNat 0 (a @ b) = digitsToNat 0 a * 10 ^ length b + digitsToNat 0 b"
  using digitsToNat_acc [of "digitsToNat 0 a" b] by (simp add: digitsToNat_app)

lemma digitsToNat_bound:
  "list_all isDigit ds \<Longrightarrow> digitsToNat 0 ds < 10 ^ length ds"
proof (induction ds rule: rev_induct)
  case Nil
  then show ?case by simp
next
  case (snoc c cs)
  then have "digitsToNat 0 cs < 10 ^ length cs" and "digitVal c < 10"
    by (simp_all add: digitVal_less)
  then have "digitsToNat 0 cs * 10 + digitVal c < 10 ^ length cs * 10"
    by linarith
  then show ?case by (simp add: digitsToNat_append)
qed

text \<open>comparison of equal-length digit strings\<close>
lemma strLe_digits:
  "length a = length b \<Longrightarrow> list_all isDigit a \<Longrightarrow> list_all isDigit b \<Longrightarrow>
   strLe a b \<longleftrightarrow> digitsToNat 0 a \<le> digitsToNat 0 b"
proof (induction a b rule: list_induct2)
  case Nil
  then show ?case by simp
next
  case (Cons x xs y ys)
  have bx: "digitsToNat 0 xs < 10 ^ length xs" and by': "digitsToNat 0 ys < 10 ^ length xs"
    using Cons digitsToNat_bound [of xs] digitsToNat_bound [of ys] by simp_all
  have vx: "digitsToNat 0 (x # xs) = digitVal x * 10 ^ length xs + digitsToNat 0 xs"
    using digitsToNat_acc [of "digitVal x" xs] by simp
  have vy: "digitsToNat 0 (y # ys) = digitVal y * 10 ^ length xs + digitsToNat 0 ys"
    using digitsToNat_acc [of "digitVal y" ys] Cons.hyps by simp
  have cmp: "code x < code y \<longleftrightarrow> digitVal x < digitVal y"
    using Cons.prems by (auto simp: digitVal_def isDigit_def)
  have cmp2: "code y < code x \<longleftrightarrow> digitVal y < digitVal x"
    using Cons.prems by (auto simp: digitVal_def isDigit_def)
  consider "digitVal x < digitVal y" | "digitVal y < digitVal x" | "digitVal x = digitVal y"
    by linarith
  then show ?case
  proof cases
    case 1
    then have "digitVal x + 1 \<le> digitVal y" by simp
    then have "(digitVal x + 1) * 10 ^ length xs \<le> digitVal y * 10 ^ length xs"
      by (rule mult_le_mono1)
    then have "digitsToNat 0 (x # xs) \<le> digitsToNat 0 (y # ys)"
      using bx unfolding vx vy by (simp add: algebra_simps)
    then show ?thesis using 1 cmp by simp
  next
    case 2
    then have "digitVal y + 1 \<le> digitVal x" by simp
    then have "(digitVal y + 1) * 10 ^ length xs \<le> digitVal x * 10 ^ length xs"
      by (rule mult_le_mono1)
    then have "\<not> digitsToNat 0 (x # xs) \<le> digitsToNat 0 (y # ys)"
      using by' unfolding vx vy by (simp add: algebra_simps)
    then show ?thesis using 2 cmp cmp2 by simp
  next
    case 3
    then have "strLe (x # xs) (y # ys) = strLe xs ys"
      using cmp cmp2 by simp
    moreover have "strLe xs ys \<longleftrightarrow> digitsToNat 0 xs \<le> digitsToNat 0 ys"
      using Cons by simp
    ultimately show ?thesis unfolding vx vy using 3 by simp
  qed
qed

lemma natToString_digits: "list_all isDigit (natToString n)"
proof (induction n rule: natToString.induct)
  case (1 n)
  show ?case
  proof (cases "n < 10")
    case True
    then show ?thesis by (simp add: natToString.simps [of n] isDigit_digitChar)
  next
    case False
    then show ?thesis
      using 1 by (simp add: natToString.simps [of n] isDigit_digitChar)
  qed
qed

lemma natToString_value: "digitsToNat 0 (natToString n) = n"
proof (induction n rule: natToString.induct)
  case (1 n)
  show ?case
  proof (cases "n < 10")
    case True
    then show ?thesis by (simp add: natToString.simps [of n] digitVal_digitChar)
  next
    case False
    then show ?thesis
      using 1 by (simp add: natToString.simps [of n] digitsToNat_append digitVal_digitChar)
  qed
qed

lemma natToString_length: "n < 10 ^ k \<Longrightarrow> 0 < k \<Longrightarrow> length (natToString n) \<le> k"
proof (induction n arbitrary: k rule: natToString.induct)
  case (1 n)
  show ?case
  proof (cases "n < 10")
    case True
    then show ?thesis using "1.prems" by (simp add: natToString.simps [of n])
  next
    case False
    obtain j where k: "k = Suc j" using "1.prems" by (cases k) auto
    have "0 < j" using False "1.prems" k by (cases j) auto
    moreover have "n div 10 < 10 ^ j" using "1.prems" k by (simp add: less_mult_imp_div_less)
    ultimately have "length (natToString (n div 10)) \<le> j"
      using "1.IH" False by simp
    then show ?thesis using False k by (simp add: natToString.simps [of n])
  qed
qed

lemma replicate_zero_value: "digitsToNat 0 (replicate j (CHR ''0'')) = 0"
  by (induction j) (simp_all add: digitVal_def code_def)

lemma addLeadingZeros_digits: "list_all isDigit (addLeadingZeros n k)"
proof -
  have "isDigit (CHR ''0'')" by (simp add: isDigit_def code_def)
  then have "list_all isDigit (replicate (k - length (natToString n)) (CHR ''0''))"
    by (simp add: list_all_iff)
  then show ?thesis by (simp add: addLeadingZeros_def natToString_digits)
qed

lemma addLeadingZeros_value: "digitsToNat 0 (addLeadingZeros n k) = n"
  by (simp add: addLeadingZeros_def digitsToNat_append replicate_zero_value natToString_value)

lemma addLeadingZeros_length: "n < 10 ^ k \<Longrightarrow> 0 < k \<Longrightarrow> length (addLeadingZeros n k) = k"
  using natToString_length [of n k] by (simp add: addLeadingZeros_def)

lemma formatDate_digits: "list_all isDigit (formatDate dt)"
  by (simp add: formatDate_def addLeadingZeros_digits)

lemma formatDate_length:
  assumes "year dt \<le> 9999" "month dt \<le> 12" "day dt \<le> 31"
  shows "length (formatDate dt) = 8"
proof -
  have "length (addLeadingZeros (year dt) 4) = 4"
    using assms by (intro addLeadingZeros_length) simp_all
  moreover have "length (addLeadingZeros (month dt) 2) = 2"
    using assms by (intro addLeadingZeros_length) simp_all
  moreover have "length (addLeadingZeros (day dt) 2) = 2"
    using assms by (intro addLeadingZeros_length) simp_all
  ultimately show ?thesis by (simp add: formatDate_def)
qed

lemma formatDate_value:
  assumes "month dt \<le> 12" "day dt \<le> 31"
  shows "digitsToNat 0 (formatDate dt) = year dt * 10000 + month dt * 100 + day dt"
proof -
  have m: "length (addLeadingZeros (month dt) 2) = 2"
    using assms by (intro addLeadingZeros_length) simp_all
  have d: "length (addLeadingZeros (day dt) 2) = 2"
    using assms by (intro addLeadingZeros_length) simp_all
  show ?thesis
    by (simp add: formatDate_def digitsToNat_append addLeadingZeros_value m d)
qed

lemma trim_id: "s \<noteq> [] \<Longrightarrow> \<not> isSpace (hd s) \<Longrightarrow> \<not> isSpace (last s) \<Longrightarrow> trim s = s"
proof -
  assume a: "s \<noteq> []" "\<not> isSpace (hd s)" "\<not> isSpace (last s)"
  then have "dropWhile isSpace s = s" by (cases s) simp_all
  moreover have "dropWhile isSpace (rev s) = rev s"
    using a by (cases "rev s") (simp_all add: last_rev [symmetric] hd_rev)
  ultimately show ?thesis by (simp add: trim_def)
qed

lemma digit_not_space: "isDigit c \<Longrightarrow> \<not> isSpace c"
  by (auto simp: isDigit_def isSpace_def)

lemma toLowerChar_digit: "isDigit c \<Longrightarrow> toLowerChar c = c"
  by (auto simp: isDigit_def toLowerChar_def)

lemma toLowerCase_digits: "list_all isDigit s \<Longrightarrow> toLowerCase s = s"
  by (induction s) (simp_all add: toLowerCase_def toLowerChar_digit)

lemma parseNDigits_digits:
  "list_all isDigit s \<Longrightarrow> 0 < n \<Longrightarrow> n \<le> length s \<Longrightarrow>
   parseNDigits n s = Some (digitsToNat 0 (take n s), drop n s)"
proof -
  assume a: "list_all isDigit s" "0 < n" "n \<le> length s"
  then have "list_all isDigit (take n s)"
    by (auto simp: list_all_iff dest: in_set_takeD)
  then have tw: "takeWhile isDigit (take n s) = take n s"
    by (simp add: list_all_iff takeWhile_eq_all_conv)
  have ne: "take n s \<noteq> []" using a by (cases s) auto
  have len: "length (take n s) = n" using a by simp
  show ?thesis unfolding parseNDigits_def Let_def tw len using ne by simp
qed

lemma calendarLeapYear_iff: "calendarLeapYear y \<longleftrightarrow> isLeapYear y"
proof -
  have "4 dvd y" if "400 dvd y"
    using that dvd_trans [of 4 400 y] by simp
  then show ?thesis
    by (auto simp: calendarLeapYear_def isLeapYear_def dvd_eq_mod_eq_0)
qed

lemma daysInMonth_calendarDays:
  assumes "1 \<le> m" "m \<le> 12"
  shows "daysInMonth y m = calendarDays y m"
proof -
  have "m = 1 \<or> m = 2 \<or> m = 3 \<or> m = 4 \<or> m = 5 \<or> m = 6 \<or> m = 7 \<or> m = 8 \<or> m = 9
      \<or> m = 10 \<or> m = 11 \<or> m = 12"
    using assms by arith
  then show ?thesis
    by (elim disjE) (simp_all add: daysInMonth_def calendarDays_def calendarLeapYear_iff)
qed

lemma calendarDays_bounds:
  assumes "1 \<le> m" "m \<le> 12"
  shows "28 \<le> calendarDays y m" "calendarDays y m \<le> 31"
  using daysInMonth_calendarDays [OF assms, of y]
  by (simp_all add: daysInMonth_def split: if_splits)

lemma parseDate_digits8:
  assumes "length s = 8" "list_all isDigit s"
  shows "parseDate tz s =
           (if isCalendarDate (digitsToNat 0 (take 4 s)) (digitsToNat 0 (take 2 (drop 4 s)))
                 (digitsToNat 0 (drop 6 s))
            then Some (tz \<lparr>year = digitsToNat 0 (take 4 s),
                            month = digitsToNat 0 (take 2 (drop 4 s)),
                            day = digitsToNat 0 (drop 6 s)\<rparr>)
            else None)"
proof -
  have d4: "list_all isDigit (drop 4 s)" and d6: "list_all isDigit (drop 6 s)"
    using assms(2) by (auto simp: list_all_iff dest: in_set_dropD)
  have p1: "parseNDigits 4 s = Some (digitsToNat 0 (take 4 s), drop 4 s)"
    using assms by (intro parseNDigits_digits) simp_all
  have p2: "parseNDigits 2 (drop 4 s) = Some (digitsToNat 0 (take 2 (drop 4 s)), drop 6 s)"
    using parseNDigits_digits [OF d4, of 2] assms(1) by simp
  have p3: "parseNDigits 2 (drop 6 s) = Some (digitsToNat 0 (drop 6 s), [])"
    using parseNDigits_digits [OF d6, of 2] assms(1) by simp
  show ?thesis
    using daysInMonth_calendarDays [of "digitsToNat 0 (take 2 (drop 4 s))" "digitsToNat 0 (take 4 s)"]
    by (auto simp: parseDate_def p1 p2 p3 isCalendarDate_def)
qed

lemma digits8_value:
  assumes "length s = 8"
  shows "digitsToNat 0 s = digitsToNat 0 (take 4 s) * 10000
           + digitsToNat 0 (take 2 (drop 4 s)) * 100 + digitsToNat 0 (drop 6 s)"
proof -
  have "drop 4 s = take 2 (drop 4 s) @ drop 6 s"
    using append_take_drop_id [of 2 "drop 4 s"] by simp
  then have "s = take 4 s @ take 2 (drop 4 s) @ drop 6 s"
    using append_take_drop_id [of 4 s] by simp
  then have "digitsToNat 0 s = digitsToNat 0 (take 4 s @ take 2 (drop 4 s) @ drop 6 s)"
    by simp
  also have "\<dots> = digitsToNat 0 (take 4 s) * 10000
           + digitsToNat 0 (take 2 (drop 4 s)) * 100 + digitsToNat 0 (drop 6 s)"
    using assms by (simp add: digitsToNat_append algebra_simps)
  finally show ?thesis .
qed

lemma daysInMonth_le: "daysInMonth y m \<le> 31"
  by (simp add: daysInMonth_def)

lemma daysInMonth_ge: "28 \<le> daysInMonth y m"
  by (simp add: daysInMonth_def)

lemma toLowerChar_units:
  "toLowerChar (CHR ''m'') = CHR ''m''" "toLowerChar (CHR ''y'') = CHR ''y''"
  "toLowerChar (CHR ''M'') = CHR ''m''" "toLowerChar (CHR ''Y'') = CHR ''y''"
  by code_simp+

lemma month_index:
  assumes "1 \<le> (m::nat)" "m \<le> 12"
  shows "(y * 12 + (m - 1)) div 12 = (y::nat)" "(y * 12 + (m - 1)) mod 12 + 1 = m"
proof -
  obtain k where k: "m = Suc k" "k < 12" using assms by (cases m) auto
  show "(y * 12 + (m - 1)) div 12 = y" using k by simp
  show "(y * 12 + (m - 1)) mod 12 + 1 = m" using k by simp
qed

lemma month_index_less:
  assumes "(i::nat) < j"
  shows "i div 12 < j div 12 \<or> (i div 12 = j div 12 \<and> i mod 12 < j mod 12)"
proof -
  have le: "i div 12 \<le> j div 12" using assms by (simp add: div_le_mono)
  have i: "i = 12 * (i div 12) + i mod 12" and j: "j = 12 * (j div 12) + j mod 12"
    by simp_all
  show ?thesis
  proof (cases "i div 12 = j div 12")
    case True
    then have "i mod 12 < j mod 12" using assms i j by linarith
    then show ?thesis using True by simp
  next
    case False
    then show ?thesis using le by simp
  qed
qed

lemma periodMatch_code:
  assumes "digits \<noteq> []" "list_all isDigit digits"
    and "unit \<in> {CHR ''m'', CHR ''y'', CHR ''M'', CHR ''Y''}"
  shows "periodMatch (toLowerCase (trim (digits @ [unit])))
           = Some (digitsToNat 0 digits, toLowerChar unit)
         \<and> (toLowerChar unit = CHR ''y'' \<longleftrightarrow> unit \<in> {CHR ''y'', CHR ''Y''})
         \<and> trim (digits @ [unit]) = digits @ [unit]"
proof -
  have u: "\<not> isSpace unit" "toLowerChar unit = CHR ''m'' \<or> toLowerChar unit = CHR ''y''"
    "toLowerChar unit = CHR ''y'' \<longleftrightarrow> unit \<in> {CHR ''y'', CHR ''Y''}"
    using assms(3) by (auto simp: isSpace_def toLowerChar_units code_def)
  have "isDigit (hd digits)" using assms(1,2) by (cases digits) simp_all
  then have "\<not> isSpace (hd (digits @ [unit]))"
    using assms(1) by (simp add: digit_not_space)
  then have t: "trim (digits @ [unit]) = digits @ [unit]"
    using u(1) by (intro trim_id) simp_all
  have l: "toLowerCase (digits @ [unit]) = digits @ [toLowerChar unit]"
    using toLowerCase_digits [OF assms(2)] by (simp add: toLowerCase_def)
  show ?thesis
    unfolding t l using assms(1,2) u(2,3) by (auto simp: periodMatch_def Let_def)
qed

lemma approval_string_facts:
  assumes "length s = 8" "list_all isDigit s"
  shows "trim s = s" "\<not> falsy (Some s)" "s \<noteq> ''-''" "toLowerCase s \<noteq> ''rolling''"
proof -
  have ne: "s \<noteq> []" using assms(1) by auto
  then have "isDigit (hd s)" "isDigit (last s)"
    using assms(2) by (auto simp: list_all_iff)
  then show "trim s = s" using ne by (intro trim_id) (simp_all add: digit_not_space)
  show "\<not> falsy (Some s)" using ne by (simp add: falsy_def)
  show "s \<noteq> ''-''" using assms(1) by auto
  have "length (toLowerCase s) = 8" using assms(1) by (simp add: toLowerCase_def)
  then show "toLowerCase s \<noteq> ''rolling''" by auto
qed

lemma formatDate_fields:
  assumes "year dt < 10000" "month dt < 100" "day dt < 100"
  shows "digitsToNat 0 (take 4 (formatDate dt)) = year dt"
    and "digitsToNat 0 (take 2 (drop 4 (formatDate dt))) = month dt"
    and "digitsToNat 0 (drop 6 (formatDate dt)) = day dt"
proof -
  have l: "length (addLeadingZeros (year dt) 4) = 4" "length (addLeadingZeros (month dt) 2) = 2"
    using assms by (simp_all add: addLeadingZeros_length)
  show "digitsToNat 0 (take 4 (formatDate dt)) = year dt"
    using l by (simp add: formatDate_def addLeadingZeros_value)
  show "digitsToNat 0 (take 2 (drop 4 (formatDate dt))) = month dt"
    using l by (simp add: formatDate_def addLeadingZeros_value)
  show "digitsToNat 0 (drop 6 (formatDate dt)) = day dt"
    using l by (simp add: formatDate_def addLeadingZeros_value)
qed

section \<open>Evaluation on concrete inputs\<close>

lemmas date_eval = calculateExpirationDate_def falsy_def trim_def toLowerCase_def toLowerChar_def
  code_def isSpace_def parseDate_def parseNDigits_def isDigit_def digitVal_def daysInMonth_def
  isLeapYear_def periodMatch_def addYears_def addMonths_def maxMonthIndex_def formatDate_def
  addLeadingZeros_def natToString.simps digitChar_def Let_def char_of_def bit_Suc_0_iff
  utc_def pacificApia_def

lemmas query_eval = performExactSearch_def foundInOrgs_def mapGet_def mapHas_def rowGet_def
  applyMainMatch_def applyAdditionalMatch_def resetInvalid_def getBaseName_def pathBasename_def
  lastComponent_def stripTrailingSlashes_def endsWith_def isAlnum_def orElse_def
  isInMainSource_def List.map_filter_simps
  alphaConf_def bobRow_def mainRow_def additionalOnly_def inMainWithHint_def

lemmas audit_eval = getQuickAuditAccounts_def ratNumOf_def belowThreshold_def parseInt_def
  NOT_PAID_DATE_THRESHOLD_def setAdd_def excludedBaseNames_def mapKeys_def wfMap_def auditData_def

lemmas fuzzy_eval = performFuzzySearch_def POST_fuzzy_def fuzzyFound_def mapKeys_def
  auditData_def additionalOnly_def bobRow_def mainRow_def alphaConf_def toLowerCase_def
  toLowerChar_def trim_def isSpace_def code_def

lemmas cache_eval = initialRepository_def getData_def onLoaded_def onFailed_def step_def
  cacheStateOf_def

lemmas csv_eval = parseCsvData_def parseCsvLines_def processLine_def parseCsvLine_def
  isBlankLine_def dquote_def EXPECTED_MAIN_HEADERS_def EXPECTED_ADDITIONAL_HEADERS_def
  ADDITIONAL_CSV_BASENAME_def PAYMENT_CSV_BASENAME_def count_processLine_def
  count_parseCsvData_def sampleCsv_def trim_def isSpace_def code_def toLowerCase_def
  toLowerChar_def Let_def char_of_def bit_Suc_0_iff


section \<open>Exact search: auxiliary facts\<close>

lemma natToString_nonempty: "natToString n \<noteq> []"
  by (subst natToString.simps) simp

lemma formatDate_nonempty: "formatDate dt \<noteq> []"
  by (simp add: formatDate_def addLeadingZeros_def natToString_nonempty)

lemma calculateExpirationDate_nonempty: "calculateExpirationDate tz a p \<noteq> []"
  by (auto simp: calculateExpirationDate_def formatDate_nonempty split: option.splits)

lemma foundInOrgs_absent:
  "\<not> isInMainSource (dataSources appData) k \<Longrightarrow> foundInOrgs appData k = []"
  by (simp add: foundInOrgs_def isInMainSource_def list_ex_iff List.map_filter_simps filter_empty_conv [THEN iffD2])

lemma status_cases: "status r = Valid \<or> status r = Invalid"
  by (cases "status r") simp_all

section \<open>Listings: auxiliary facts\<close>

lemma expiredLoop_eq:
  "expiredLoop tz dss today entries acc =
     acc @ map (\<lambda>(e, row). \<lparr>exp_email = e,
                   exp_organization = orElse (rowGet row ''Org'') ''Unknown'',
                   exp_approver = orElse (rowGet row ''Approver'') ''-'',
                   exp_expirationDate = calculateExpirationDate tz (rowGet row ''rat'') (rowGet row ''pov'')\<rparr>)
            (filter (\<lambda>(e, row).
                 calculateExpirationDate tz (rowGet row ''rat'') (rowGet row ''pov'') \<noteq> []
               \<and> calculateExpirationDate tz (rowGet row ''rat'') (rowGet row ''pov'') \<noteq> ''-''
               \<and> calculateExpirationDate tz (rowGet row ''rat'') (rowGet row ''pov'') \<noteq> ''Rolling''
               \<and> strLe (calculateExpirationDate tz (rowGet row ''rat'') (rowGet row ''pov'')) today
               \<and> isInMainSource dss e) entries)"
proof (induction entries arbitrary: acc)
  case Nil
  then show ?case by simp
next
  case (Cons p entries)
  obtain e row where p: "p = (e, row)" by (cases p)
  show ?case unfolding p by (simp add: Cons.IH Let_def)
qed

lemma set_setAdd: "set (setAdd s x) = insert x (set s)"
  by (auto simp: setAdd_def)

lemma auditInv_add:
  "auditInv (accs, added) \<Longrightarrow> e \<notin> set added \<Longrightarrow> qa_email a = e
   \<Longrightarrow> auditInv (accs @ [a], setAdd added e)"
  by (auto simp: auditInv_def set_setAdd)

lemma notRegisteredKeys_inv:
  "auditInv st \<Longrightarrow> auditInv (notRegisteredKeys appData keys st)"
proof (induction keys arbitrary: st)
  case Nil
  then show ?case by simp
next
  case (Cons e keys)
  obtain accs added where st: "st = (accs, added)" by (cases st)
  have inv: "auditInv (accs, added)" using Cons.prems st by simp
  show ?case
  proof (cases "e \<in> set added \<or> mapHas (additionalMap appData) e")
    case True
    then show ?thesis unfolding st using Cons.IH [OF inv] by auto
  next
    case False
    then have "auditInv (accs @ [\<lparr>qa_email = e, qa_rat = ''-'', qa_approver = ''-'',
                 qa_pov = ''-'', qa_reason = NotRegistered\<rparr>], setAdd added e)"
      using inv by (intro auditInv_add) simp_all
    then show ?thesis unfolding st using False Cons.IH by simp
  qed
qed

lemma notRegisteredLoop_inv:
  "auditInv st \<Longrightarrow> auditInv (notRegisteredLoop appData dss st)"
  by (induction dss arbitrary: st) (simp_all add: notRegisteredKeys_inv)

lemma notRegisteredKeys_extends:
  "\<exists>ys. fst (notRegisteredKeys appData keys st) = fst st @ ys
        \<and> (\<forall>a \<in> set ys. qa_reason a = NotRegistered \<and> \<not> mapHas (additionalMap appData) (qa_email a))"
proof (induction keys arbitrary: st)
  case Nil
  then show ?case by simp
next
  case (Cons e keys)
  obtain accs added where st: "st = (accs, added)" by (cases st)
  show ?case
  proof (cases "e \<in> set added \<or> mapHas (additionalMap appData) e")
    case True
    then show ?thesis unfolding st using Cons.IH [of "(accs, added)"] by auto
  next
    case False
    let ?a = "\<lparr>qa_email = e, qa_rat = ''-'', qa_approver = ''-'',
                 qa_pov = ''-'', qa_reason = NotRegistered\<rparr>"
    obtain ys where ys: "fst (notRegisteredKeys appData keys (accs @ [?a], setAdd added e))
                          = (accs @ [?a]) @ ys"
        "\<forall>a \<in> set ys. qa_reason a = NotRegistered \<and> \<not> mapHas (additionalMap appData) (qa_email a)"
      using Cons.IH [of "(accs @ [?a], setAdd added e)"] by auto
    have "fst (notRegisteredKeys appData (e # keys) st) = fst st @ (?a # ys)"
      unfolding st using False ys(1) by simp
    moreover have "\<forall>a \<in> set (?a # ys). qa_reason a = NotRegistered
                      \<and> \<not> mapHas (additionalMap appData) (qa_email a)"
      using False ys(2) by simp
    ultimately show ?thesis by blast
  qed
qed

lemma notRegisteredLoop_extends:
  "\<exists>ys. fst (notRegisteredLoop appData dss st) = fst st @ ys
        \<and> (\<forall>a \<in> set ys. qa_reason a = NotRegistered \<and> \<not> mapHas (additionalMap appData) (qa_email a))"
proof (induction dss arbitrary: st)
  case Nil
  then show ?case by simp
next
  case (Cons ds dss)
  show ?case
  proof (cases "baseName ds \<in> set excludedBaseNames")
    case True
    then show ?thesis using Cons.IH [of st] by simp
  next
    case False
    let ?st = "notRegisteredKeys appData (mapKeys (dataMap ds)) st"
    obtain ys where ys: "fst ?st = fst st @ ys"
      "\<forall>a \<in> set ys. qa_reason a = NotRegistered \<and> \<not> mapHas (additionalMap appData) (qa_email a)"
      using notRegisteredKeys_extends by blast
    obtain zs where zs: "fst (notRegisteredLoop appData dss ?st) = fst ?st @ zs"
      "\<forall>a \<in> set zs. qa_reason a = NotRegistered \<and> \<not> mapHas (additionalMap appData) (qa_email a)"
      using Cons.IH [of ?st] by blast
    have "fst (notRegisteredLoop appData (ds # dss) st) = fst st @ (ys @ zs)"
      using False ys(1) zs(1) by simp
    moreover have "\<forall>a \<in> set (ys @ zs). qa_reason a = NotRegistered
                      \<and> \<not> mapHas (additionalMap appData) (qa_email a)"
      using ys(2) zs(2) by auto
    ultimately show ?thesis by blast
  qed
qed

lemma notPaidLoop_eq:
  "notPaidLoop appData entries st =
     (fst st @ map (\<lambda>(e, row).
          \<lparr>qa_email = e, qa_rat = orElse (map_option trim (rowGet row ''rat'')) ''-'',
            qa_approver = orElse (map_option trim (rowGet row ''Approver'')) ''-'',
            qa_pov = orElse (map_option trim (rowGet row ''pov'')) ''-'',
            qa_reason = NotPaid\<rparr>)
        (filter (\<lambda>(e, row). \<not> belowThreshold (ratNumOf (map_option trim (rowGet row ''rat'')))
                   \<and> isInMainSource (dataSources appData) e
                   \<and> \<not> mapHas (paymentMap appData) e) entries),
      foldl setAdd (snd st)
        (map fst (filter (\<lambda>(e, row). \<not> belowThreshold (ratNumOf (map_option trim (rowGet row ''rat'')))
                   \<and> isInMainSource (dataSources appData) e
                   \<and> \<not> mapHas (paymentMap appData) e) entries)))"
proof (induction entries arbitrary: st)
  case Nil
  then show ?case by simp
next
  case (Cons p entries)
  obtain e row where p: "p = (e, row)" by (cases p)
  obtain accs added where st: "st = (accs, added)" by (cases st)
  show ?case unfolding p st by (simp add: Cons.IH Let_def)
qed

lemma set_foldl_setAdd: "set (foldl setAdd s xs) = set s \<union> set xs"
  by (induction xs arbitrary: s) (auto simp: set_setAdd)

lemma distinct_map_filter_single:
  "distinct (map f xs) \<Longrightarrow> a \<in> set xs \<Longrightarrow> filter (\<lambda>x. f x = f a) xs = [a]"
proof (induction xs)
  case Nil
  then show ?case by simp
next
  case (Cons x xs)
  show ?case
  proof (cases "a = x")
    case True
    have "filter (\<lambda>y. f y = f x) xs = []"
      using Cons.prems(1) by (auto simp: filter_empty_conv intro: rev_image_eqI)
    then show ?thesis using True by simp
  next
    case False
    then have "a \<in> set xs" using Cons.prems(2) by simp
    moreover have "f x \<noteq> f a" using Cons.prems(1) calculation by auto
    ultimately show ?thesis using Cons by simp
  qed
qed

lemma takeWhile_digits_append:
  "list_all isDigit ds \<Longrightarrow> r = [] \<or> \<not> isDigit (hd r) \<Longrightarrow> takeWhile isDigit (ds @ r) = ds"
  by (cases r) (auto simp: list_all_iff takeWhile_append)

lemma isPrefixOf_iff: "isPrefixOf t s \<longleftrightarrow> (\<exists>q. s = t @ q)"
  by (induction t s rule: isPrefixOf.induct) auto

lemma strIncludes_iff: "strIncludes s t \<longleftrightarrow> (\<exists>p q. s = p @ t @ q)"
proof (induction s)
  case Nil
  then show ?case by simp
next
  case (Cons x xs)
  show ?case
  proof
    assume "strIncludes (x # xs) t"
    then consider "isPrefixOf t (x # xs)" | "strIncludes xs t" by auto
    then show "\<exists>p q. x # xs = p @ t @ q"
    proof cases
      case 1
      then obtain q where "x # xs = [] @ t @ q" by (auto simp: isPrefixOf_iff)
      then show ?thesis by blast
    next
      case 2
      then obtain p q where "xs = p @ t @ q" using Cons.IH by blast
      then have "x # xs = (x # p) @ t @ q" by simp
      then show ?thesis by blast
    qed
  next
    assume "\<exists>p q. x # xs = p @ t @ q"
    then obtain p q where pq: "x # xs = p @ t @ q" by blast
    show "strIncludes (x # xs) t"
    proof (cases p)
      case Nil
      then have "isPrefixOf t (x # xs)" using pq by (auto simp: isPrefixOf_iff)
      then show ?thesis by simp
    next
      case (Cons y ys)
      then have "xs = ys @ t @ q" using pq by simp
      then have "strIncludes xs t" using Cons.IH by blast
      then show ?thesis by simp
    qed
  qed
qed

lemma anyKeyIncludes_iff: "anyKeyIncludes ks t \<longleftrightarrow> (\<exists>k \<in> set ks. strIncludes k t)"
  by (induction ks) auto

lemma foundInSources_iff:
  "foundInSources dss t \<longleftrightarrow> (\<exists>ds \<in> set dss. \<exists>k \<in> set (mapKeys (dataMap ds)). strIncludes k t)"
  by (induction dss) (auto simp: anyKeyIncludes_iff)

lemma fuzzyFound_iff: "fuzzyFound t appData \<longleftrightarrow> someEmailContains appData t"
proof -
  have "fuzzyFound t appData \<longleftrightarrow>
          foundInSources (dataSources appData) t
          \<or> anyKeyIncludes (mapKeys (additionalMap appData)) t"
    by (simp add: fuzzyFound_def)
  also have "\<dots> \<longleftrightarrow> (\<exists>k \<in> indexedEmails appData. strIncludes k t)"
    unfolding foundInSources_iff anyKeyIncludes_iff indexedEmails_def by blast
  finally show ?thesis by (simp add: someEmailContains_def strIncludes_iff)
qed

text \<open>The threshold test of the Not Paid pass, on the string it is given.\<close>

lemma belowThreshold_iff:
  "(\<not> belowThreshold (ratNumOf (Some s)) \<longleftrightarrow>
      (\<exists>sg ds r. dropWhile isSpace s = sg @ ds @ r \<and> (sg = [] \<or> sg = ''+'')
          \<and> ds \<noteq> [] \<and> list_all isDigit ds \<and> (r = [] \<or> \<not> isDigit (hd r))
          \<and> 20250724 \<le> digitsToNat 0 ds))
   \<and> belowThreshold (ratNumOf None) \<and> belowThreshold (ratNumOf (Some []))"
proof -
  define s1 where "s1 = dropWhile isSpace s"
  define neg where "neg \<longleftrightarrow> s1 \<noteq> [] \<and> hd s1 = CHR ''-''"
  define s2 where "s2 = (if s1 \<noteq> [] \<and> (hd s1 = CHR ''-'' \<or> hd s1 = CHR ''+'') then tl s1 else s1)"
  define ds0 where "ds0 = takeWhile isDigit s2"
  define v where "v = int (digitsToNat 0 ds0)"
  have sign_not_digit: "\<not> isDigit (CHR ''-'')" "\<not> isDigit (CHR ''+'')"
    by (simp_all add: isDigit_def code_def)
  have pi: "parseInt s = (if ds0 = [] then None else Some (if neg then - v else v))"
    by (simp add: parseInt_def Let_def s1_def neg_def s2_def ds0_def v_def)
  have v0: "0 \<le> v" by (simp add: v_def)
  have "(\<not> belowThreshold (ratNumOf (Some s))) =
      (\<exists>sg ds r. s1 = sg @ ds @ r \<and> (sg = [] \<or> sg = ''+'')
          \<and> ds \<noteq> [] \<and> list_all isDigit ds \<and> (r = [] \<or> \<not> isDigit (hd r))
          \<and> 20250724 \<le> digitsToNat 0 ds)" (is "?L = ?R")
  proof
    assume L: ?L
    have ne: "s \<noteq> []" using L by (auto simp: belowThreshold_def ratNumOf_def falsy_def)
    then have rn: "ratNumOf (Some s) = parseInt s" by (simp add: ratNumOf_def falsy_def)
    have nb: "\<not> belowThreshold (if ds0 = [] then None else Some (if neg then - v else v))"
      using L unfolding rn pi .
    have ds: "ds0 \<noteq> []" using nb by (auto simp: belowThreshold_def)
    have notneg: "\<not> neg"
      using nb ds v0 by (auto simp: belowThreshold_def NOT_PAID_DATE_THRESHOLD_def)
    have "20250724 \<le> v"
      using nb ds notneg by (auto simp: belowThreshold_def NOT_PAID_DATE_THRESHOLD_def)
    then have val: "20250724 \<le> digitsToNat 0 ds0" by (simp add: v_def)
    define sg where "sg = (if s1 \<noteq> [] \<and> hd s1 = CHR ''+'' then ''+'' else [])"
    have s1: "s1 = sg @ s2"
      using notneg by (cases s1) (auto simp: sg_def s2_def neg_def)
    have s2: "s2 = ds0 @ dropWhile isDigit s2" by (simp add: ds0_def)
    have r: "dropWhile isDigit s2 = [] \<or> \<not> isDigit (hd (dropWhile isDigit s2))"
      using hd_dropWhile [of isDigit s2] by blast
    have "s1 = sg @ ds0 @ dropWhile isDigit s2" using s1 s2 by simp
    moreover have "sg = [] \<or> sg = ''+''" by (simp add: sg_def)
    moreover have "list_all isDigit ds0"
      unfolding ds0_def list_all_iff by (meson set_takeWhileD)
    ultimately show ?R using ds r val by blast
  next
    assume ?R
    then obtain sg ds r where d: "s1 = sg @ ds @ r" "sg = [] \<or> sg = ''+''"
      "ds \<noteq> []" "list_all isDigit ds" "r = [] \<or> \<not> isDigit (hd r)"
      "20250724 \<le> digitsToNat 0 ds" by blast
    have hdds: "isDigit (hd ds)" using d(3,4) by (cases ds) simp_all
    have s1ne: "s1 \<noteq> []" using d(1,3) by simp
    then have ne: "s \<noteq> []" by (auto simp: s1_def)
    have s2: "s2 = ds @ r"
      using d(1,2,3) hdds sign_not_digit by (cases ds) (auto simp: s2_def)
    have notneg: "\<not> neg"
      using d(1,2,3) hdds sign_not_digit by (cases ds) (auto simp: neg_def)
    have tw: "ds0 = ds" unfolding ds0_def s2 using d(4,5) by (rule takeWhile_digits_append)
    have "parseInt s = Some (int (digitsToNat 0 ds))"
      unfolding pi v_def tw using d(3) notneg by simp
    then show ?L
      using ne d(6) by (simp add: belowThreshold_def ratNumOf_def falsy_def NOT_PAID_DATE_THRESHOLD_def)
  qed
  moreover have "belowThreshold (ratNumOf None)" "belowThreshold (ratNumOf (Some []))"
    by (simp_all add: belowThreshold_def ratNumOf_def falsy_def)
  ultimately show ?thesis unfolding s1_def by blast
qed

lemma dropWhile_trim: "dropWhile isSpace (trim s) = trim s"
proof -
  define t where "t = dropWhile isSpace s"
  have t: "t = [] \<or> \<not> isSpace (hd t)"
    unfolding t_def using hd_dropWhile [of isSpace s] by blast
  have split: "t = rev (dropWhile isSpace (rev t)) @ rev (takeWhile isSpace (rev t))"
    by (metis rev_append rev_rev_ident takeWhile_dropWhile_id)
  have tr: "trim s = rev (dropWhile isSpace (rev t))" by (simp add: trim_def t_def)
  show ?thesis
  proof (cases "trim s")
    case Nil
    then show ?thesis by simp
  next
    case (Cons c cs)
    then have "t = (c # cs) @ rev (takeWhile isSpace (rev t))" using split tr by simp
    then have "hd t = c" and "t \<noteq> []" by (metis append_Cons list.sel(1), auto)
    then have "\<not> isSpace c" using t by auto
    then show ?thesis using Cons by simp
  qed
qed

section \<open>The cache: auxiliary facts\<close>

lemma cacheInv_initial: "cacheInv initialRepository"
  by (simp add: cacheInv_def cacheStateOf_def initialRepository_def)

lemma cacheInv_step: "cacheInv s \<Longrightarrow> step s e = Some s' \<Longrightarrow> cacheInv s'"
  by (cases e)
     (auto simp: cacheInv_def cacheStateOf_def step_def getData_def onLoaded_def onFailed_def
           split: option.splits if_splits)

lemma cacheInv_exec: "cacheInv s \<Longrightarrow> exec s es = Some s' \<Longrightarrow> cacheInv s'"
proof (induction es arbitrary: s)
  case Nil
  then show ?case by simp
next
  case (Cons e es)
  then show ?case by (auto split: option.splits dest: cacheInv_step)
qed

lemma loaded_step:
  "cachedData s = Some d \<Longrightarrow> cacheInv s \<Longrightarrow> step s e = Some s'
   \<Longrightarrow> cachedData s' = Some d \<and> loadsStarted s' = loadsStarted s"
  by (cases e)
     (auto simp: cacheInv_def cacheStateOf_def step_def getData_def onLoaded_def onFailed_def
           split: option.splits if_splits)

lemma loaded_exec:
  "cachedData s = Some d \<Longrightarrow> cacheInv s \<Longrightarrow> exec s es = Some s'
   \<Longrightarrow> cachedData s' = Some d \<and> loadsStarted s' = loadsStarted s"
proof (induction es arbitrary: s)
  case Nil
  then show ?case by simp
next
  case (Cons e es)
  from Cons.prems obtain s1 where s1: "step s e = Some s1" "exec s1 es = Some s'"
    by (auto split: option.splits)
  have "cachedData s1 = Some d \<and> loadsStarted s1 = loadsStarted s"
    using loaded_step [OF Cons.prems(1,2) s1(1)] .
  moreover have "cacheInv s1" using cacheInv_step [OF Cons.prems(2) s1(1)] .
  ultimately show ?case using Cons.IH [of s1] s1(2) by simp
qed

section \<open>The loaders: auxiliary facts\<close>

lemma dataLinesLoop_eq:
  "dataLinesLoop headers e lines data = data @ concat (map (processLine headers e) lines)"
  by (induction lines arbitrary: data) simp_all

lemma processLine_at_most_one: "length (processLine headers e line) \<le> 1"
  by (simp add: processLine_def Let_def split: option.splits prod.splits)

lemma processLine_short:
  "length (parseCsvLine line) < length headers \<Longrightarrow> processLine headers e line = []"
  by (simp add: processLine_def Let_def)

lemma processLine_no_email:
  "indexOf headers e = Some i \<Longrightarrow> parseCsvLine line ! i = [] \<Longrightarrow> processLine headers e line = []"
  by (simp add: processLine_def Let_def)

lemma processLine_no_index:
  "indexOf headers e = None \<Longrightarrow> processLine headers e line = []"
  by (simp add: processLine_def Let_def)












section \<open>Claims about the expiration calculator\<close>

text \<open>
  C6 (as the code has it). Let the approval string be eight digits \<open>YYYYMMDD\<close> that name
  a calendar date of a year from 1 on, and the period code be digits followed by \<open>m\<close> or
  \<open>y\<close> in either case; the target month lies that many months (twelve per year) after
  the month of the approval date, and the target day is the day of the month of the
  approval date, or the last day of the target month when that month is shorter. If the
  time zone of the host skips neither the approval date nor, for an amount other than 0,
  the target day and the last day of the target month, and the target year is at most
  9999, then the calculator returns the target day as eight digits \<open>YYYYMMDD\<close>, and the
  result is not below the approval string in the string order. In particular every
  calendar date is accepted, 29 February included.
\<close>

theorem calculateExpirationDate_adds_period:
  assumes "length s = 8" and "list_all isDigit s"
    and "y = digitsToNat 0 (take 4 s)" and "m = digitsToNat 0 (take 2 (drop 4 s))"
    and "d = digitsToNat 0 (drop 6 s)"
    and "isCalendarDate y m d"
    and "digits \<noteq> []" and "list_all isDigit digits"
    and "unit \<in> {CHR ''m'', CHR ''y'', CHR ''M'', CHR ''Y''}"
    and "months = (if unit \<in> {CHR ''y'', CHR ''Y''} then digitsToNat 0 digits * 12
                   else digitsToNat 0 digits)"
    and "ty = (y * 12 + (m - 1) + months) div 12"
    and "tm = (y * 12 + (m - 1) + months) mod 12 + 1"
    and "td = min d (calendarDays ty tm)"
    and "ty \<le> 9999"
    and "tz \<lparr>year = y, month = m, day = d\<rparr> = \<lparr>year = y, month = m, day = d\<rparr>"
    and "months \<noteq> 0 \<longrightarrow>
           tz \<lparr>year = ty, month = tm, day = td\<rparr> = \<lparr>year = ty, month = tm, day = td\<rparr>"
    and "months \<noteq> 0 \<longrightarrow>
           tz \<lparr>year = ty, month = tm, day = calendarDays ty tm\<rparr>
             = \<lparr>year = ty, month = tm, day = calendarDays ty tm\<rparr>"
    and "r = calculateExpirationDate tz (Some s) (Some (digits @ [unit]))"
  shows "r = formatDate \<lparr>year = ty, month = tm, day = td\<rparr>
       \<and> length r = 8 \<and> list_all isDigit r
       \<and> digitsToNat 0 (take 4 r) = ty \<and> digitsToNat 0 (take 2 (drop 4 r)) = tm
       \<and> digitsToNat 0 (drop 6 r) = td
       \<and> isCalendarDate ty tm td
       \<and> strLe s r"
proof -
  let ?p = "digits @ [unit]"
  let ?a = "\<lparr>year = y, month = m, day = d\<rparr>"
  let ?e = "\<lparr>year = ty, month = tm, day = td\<rparr>"
  define idx where "idx = y * 12 + (m - 1) + months"
  have t: "ty = idx div 12" "tm = idx mod 12 + 1"
    using assms(11,12) by (simp_all add: idx_def)
  note sf = approval_string_facts [OF assms(1,2)]
  note pm = periodMatch_code [OF assms(7,8,9)]
  have pd: "1 \<le> y" "1 \<le> m" "m \<le> 12" "1 \<le> d" "d \<le> calendarDays y m"
    using assms(6) by (simp_all add: isCalendarDate_def)
  have tmr: "1 \<le> tm" "tm \<le> 12" using t(2) by simp_all
  note cb = calendarDays_bounds [OF tmr, of ty]
  have tdr: "1 \<le> td" "td \<le> calendarDays ty tm" "td \<le> 31"
    using pd(4) cb assms(13) by simp_all
  have parse: "parseDate tz s = Some ?a"
    using parseDate_digits8 [OF assms(1,2), of tz] assms(3,4,5,6,15) by simp
  have pf: "\<not> falsy (Some ?p)" "?p \<noteq> ''-''"
    using assms(7) by (auto simp: falsy_def)
  have add: "(if toLowerChar unit = CHR ''y'' then addYears tz ?a (digitsToNat 0 digits)
              else addMonths tz ?a (digitsToNat 0 digits)) = addMonths tz ?a months"
    using pm assms(10) by (simp add: addYears_def)
  have same: "ty = y \<and> tm = m \<and> td = d" if "months = 0"
  proof -
    have "idx div 12 = y" "idx mod 12 + 1 = m"
      using that pd month_index [of m y] by (simp_all add: idx_def)
    then show ?thesis using t pd(5) assms(13) by simp
  qed
  have am: "addMonths tz ?a months = Some ?e"
  proof (cases "months = 0")
    case True
    then show ?thesis using same by (simp add: addMonths_def)
  next
    case False
    define E where "E = \<lparr>year = idx div 12, month = idx mod 12 + 1,
                          day = daysInMonth (idx div 12) (idx mod 12 + 1)\<rparr>"
    have unf: "addMonths tz ?a months =
                 (if months = 0 then Some ?a
                  else if maxMonthIndex < idx then None
                  else if day (tz E) \<le> d then Some (tz E)
                  else Some (tz \<lparr>year = year (tz E), month = month (tz E), day = d\<rparr>))"
      unfolding addMonths_def Let_def idx_def E_def by simp
    have le: "\<not> maxMonthIndex < idx" using assms(14) t(1) by (simp add: maxMonthIndex_def)
    have "E = \<lparr>year = ty, month = tm, day = calendarDays ty tm\<rparr>"
      using daysInMonth_calendarDays [OF tmr, of ty] t by (simp add: E_def)
    then have eom: "tz E = \<lparr>year = ty, month = tm, day = calendarDays ty tm\<rparr>"
      using assms(17) False by simp
    show ?thesis
    proof (cases "calendarDays ty tm \<le> d")
      case True
      then have "td = calendarDays ty tm" using assms(13) by simp
      then show ?thesis
        unfolding unf eom using False le True by simp
    next
      case nle: False
      then have td: "td = d" using assms(13) by simp
      show ?thesis
        unfolding unf eom using False le nle assms(16) by (simp add: td)
    qed
  qed
  have pm1: "periodMatch (toLowerCase (trim ?p)) = Some (digitsToNat 0 digits, toLowerChar unit)"
    using pm by blast
  have cond: "\<not> (falsy (Some s) \<or> falsy (Some ?p) \<or> Some s = Some ''-''
         \<or> Some ?p = Some ''-''
         \<or> map_option (toLowerCase \<circ> trim) (Some s) = Some ''rolling'')"
    using sf pf by simp
  have calc: "r = formatDate ?e"
    unfolding assms(18) calculateExpirationDate_def if_not_P [OF cond]
    by (simp only: option.sel sf(1) parse pm1 option.case prod.case add am)
  have len: "length (formatDate ?e) = 8"
    using assms(14) tmr tdr by (intro formatDate_length) simp_all
  have fields: "digitsToNat 0 (take 4 (formatDate ?e)) = ty"
    "digitsToNat 0 (take 2 (drop 4 (formatDate ?e))) = tm"
    "digitsToNat 0 (drop 6 (formatDate ?e)) = td"
    using formatDate_fields [of ?e] assms(14) tmr tdr by simp_all
  have ve: "digitsToNat 0 (formatDate ?e) = ty * 10000 + tm * 100 + td"
    using digits8_value [OF len] fields by simp
  have vs: "digitsToNat 0 s = y * 10000 + m * 100 + d"
    using digits8_value [OF assms(1)] assms(3,4,5) by simp
  have dle: "d \<le> 31"
    using pd calendarDays_bounds [of m y] by linarith
  have le: "digitsToNat 0 s \<le> digitsToNat 0 (formatDate ?e)"
  proof (cases "months = 0")
    case True
    then show ?thesis unfolding vs ve using same by simp
  next
    case False
    define i0 where "i0 = y * 12 + (m - 1)"
    have i0: "i0 div 12 = y" "i0 mod 12 + 1 = m"
      using pd month_index [of m y] by (simp_all add: i0_def)
    have lt: "i0 < idx" using False by (simp add: i0_def idx_def)
    have "i0 div 12 < idx div 12 \<or> (i0 div 12 = idx div 12 \<and> i0 mod 12 < idx mod 12)"
      using lt by (rule month_index_less)
    then show ?thesis
    proof
      assume "i0 div 12 < idx div 12"
      then have "y + 1 \<le> ty" using i0 t by simp
      then have "(y + 1) * 10000 \<le> ty * 10000"
        by (rule mult_le_mono1)
      then show ?thesis unfolding vs ve using pd dle by simp
    next
      assume "i0 div 12 = idx div 12 \<and> i0 mod 12 < idx mod 12"
      then have "y = ty" "m + 1 \<le> tm"
        using i0 t by auto
      then show ?thesis unfolding vs ve using dle tdr by simp
    qed
  qed
  have "strLe s (formatDate ?e)"
    using strLe_digits [of s "formatDate ?e"] assms(1,2) len formatDate_digits le by simp
  moreover have "isCalendarDate ty tm td"
    using tmr tdr pd(1) t(1) by (simp add: isCalendarDate_def idx_def) 
  ultimately show ?thesis using calc len fields formatDate_digits by simp
qed

theorem calculateExpirationDate_adds_period_witness:
  "isCalendarDate 2024 2 29
   \<and> pacificApia \<lparr>year = 2024, month = 2, day = 29\<rparr> = \<lparr>year = 2024, month = 2, day = 29\<rparr>
   \<and> pacificApia \<lparr>year = 2025, month = 2, day = 28\<rparr> = \<lparr>year = 2025, month = 2, day = 28\<rparr>
   \<and> calculateExpirationDate pacificApia (Some ''20240229'') (Some ''1y'') = ''20250228''
   \<and> isCalendarDate 2025 2 28
   \<and> strLe ''20240229'' (calculateExpirationDate pacificApia (Some ''20240229'') (Some ''1y''))"
proof -
  have a: "length ''20240229'' = 8" "list_all isDigit ''20240229''"
    "(2024::nat) = digitsToNat 0 (take 4 ''20240229'')"
    "(2::nat) = digitsToNat 0 (take 2 (drop 4 ''20240229''))"
    "(29::nat) = digitsToNat 0 (drop 6 ''20240229'')"
    "isCalendarDate 2024 2 29"
    "''1'' \<noteq> []" "list_all isDigit ''1''"
    "CHR ''y'' \<in> {CHR ''m'', CHR ''y'', CHR ''M'', CHR ''Y''}"
    "(12::nat) = (if CHR ''y'' \<in> {CHR ''y'', CHR ''Y''} then digitsToNat 0 ''1'' * 12
                   else digitsToNat 0 ''1'')"
    by (simp_all add: date_eval isCalendarDate_def calendarDays_def calendarLeapYear_def)
  have b: "(2025::nat) = (2024 * 12 + (2 - 1) + 12) div 12"
    "(2::nat) = (2024 * 12 + (2 - 1) + 12) mod 12 + 1"
    "(28::nat) = min 29 (calendarDays 2025 2)"
    "(2025::nat) \<le> 9999"
    by (simp_all add: calendarDays_def calendarLeapYear_def)
  have c: "pacificApia \<lparr>year = 2024, month = 2, day = 29\<rparr> = \<lparr>year = 2024, month = 2, day = 29\<rparr>"
    "(12::nat) \<noteq> 0 \<longrightarrow>
       pacificApia \<lparr>year = 2025, month = 2, day = 28\<rparr> = \<lparr>year = 2025, month = 2, day = 28\<rparr>"
    "(12::nat) \<noteq> 0 \<longrightarrow>
       pacificApia \<lparr>year = 2025, month = 2, day = calendarDays 2025 2\<rparr>
         = \<lparr>year = 2025, month = 2, day = calendarDays 2025 2\<rparr>"
    by (simp_all add: pacificApia_def)
  have f: "formatDate \<lparr>year = 2025, month = 2, day = 28\<rparr> = ''20250228''"
    by (simp add: date_eval)
  have "calculateExpirationDate pacificApia (Some ''20240229'') (Some (''1'' @ [CHR ''y'']))
          = formatDate \<lparr>year = 2025, month = 2, day = 28\<rparr>
      \<and> isCalendarDate 2025 2 28
      \<and> strLe ''20240229''
           (calculateExpirationDate pacificApia (Some ''20240229'') (Some (''1'' @ [CHR ''y''])))"
    using calculateExpirationDate_adds_period [OF a b c refl] by blast
  moreover have "pacificApia \<lparr>year = 2025, month = 2, day = 28\<rparr>
                   = \<lparr>year = 2025, month = 2, day = 28\<rparr>"
    by (simp add: pacificApia_def)
  ultimately show ?thesis using a(6) c(1) unfolding f append.simps by blast
qed

text \<open>
  C6 as stated fails beyond the year 9999: the year is then printed with five digits and
  the nine-character result is below the approval string. It also fails where the time
  zone of the host skips a day: in Pacific/Apia the approval date 30 December 2011 is
  read as 31 December, and one month later is 31 January 2012, not 30 January.
\<close>

theorem calculateExpirationDate_ge_counterexample:
  "isCalendarDate 9999 1 1
   \<and> periodMatch ''1y'' = Some (1, CHR ''y'')
   \<and> calculateExpirationDate utc (Some ''99990101'') (Some ''1y'') = ''100000101''
   \<and> \<not> strLe ''99990101'' (calculateExpirationDate utc (Some ''99990101'') (Some ''1y''))
   \<and> isCalendarDate 2011 12 30
   \<and> periodMatch ''1m'' = Some (1, CHR ''m'')
   \<and> calculateExpirationDate utc (Some ''20111230'') (Some ''1m'') = ''20120130''
   \<and> calculateExpirationDate pacificApia (Some ''20111230'') (Some ''1m'') = ''20120131''"
  by (simp add: date_eval isCalendarDate_def calendarDays_def calendarLeapYear_def)

section \<open>Claims about exact search\<close>

text \<open>
  C1 (as the code has it). For an email that is in no DataSource index and in the
  AdditionalRecord index, exact search answers Valid exactly when the computed expiration
  is not \<open>"-"\<close> (it is a date or \<open>"Rolling"\<close>) and the configuration index has an entry
  under the basename of the record's Org hint (under the empty key when there is no hint).
  The answer then has deviceLimit 2, the subscription details of that entry, its orgName
  (the hint itself when the orgName is empty) and the computed expiration; in every other
  case the status is Invalid and every other field is reset.
\<close>

theorem exact_search_additional_only:
  assumes "\<not> isInMainSource (dataSources appData) (toLowerCase e)"
    and "mapGet (additionalMap appData) (toLowerCase e) = Some row"
    and "expDate = calculateExpirationDate tz (map_option trim (rowGet row ''rat''))
                 (map_option trim (rowGet row ''pov''))"
    and "hint = map_option trim (rowGet row ''Org'')"
    and "conf = mapGet (confData appData) (if falsy hint then [] else getBaseName (the hint))"
    and "r = performExactSearch tz e appData"
  shows "(status r = Valid \<longleftrightarrow> expDate \<noteq> ''-'' \<and> conf \<noteq> None)
       \<and> (status r = Valid \<longrightarrow>
            deviceLimit r = 2 \<and> subscriptionDetails r = subDetails (the conf)
            \<and> organization r = (if falsy hint then orgName (the conf)
                                 else orElse (Some (orgName (the conf))) (the hint))
            \<and> expirationDate r = expDate)
       \<and> (status r \<noteq> Valid \<longrightarrow>
            status r = Invalid \<and> deviceLimit r = 0 \<and> organization r = ''-''
            \<and> subscriptionDetails r = ''-'' \<and> expirationDate r = ''-''
            \<and> approver r = ''-'' \<and> approvalDate r = ''-'')"
proof -
  have ne: "expDate \<noteq> []" using assms(3) by (simp add: calculateExpirationDate_nonempty)
  have r: "r = resetInvalid (applyAdditionalMatch tz (confData appData) row
              \<lparr>email = e, status = Invalid, organization = ''-'',
                subscriptionDetails = ''-'', deviceLimit = 0, approver = ''-'',
                approvalDate = ''-'', expirationDate = ''-''\<rparr>)"
    using assms(1,2,6)
    by (simp add: performExactSearch_def foundInOrgs_absent applyMainMatch_def)
  show ?thesis
  proof (cases conf)
    case None
    then show ?thesis
      using ne assms(5) unfolding r applyAdditionalMatch_def resetInvalid_def Let_def
        assms(3) [symmetric] assms(4) [symmetric]
      by (auto simp: orElse_def split: if_splits)
  next
    case (Some c)
    then show ?thesis
      using ne assms(5) unfolding r applyAdditionalMatch_def resetInvalid_def Let_def
        assms(3) [symmetric] assms(4) [symmetric]
      by (auto simp: orElse_def split: if_splits)
  qed
qed

theorem exact_search_additional_only_witness:
  "\<not> isInMainSource (dataSources (additionalOnly ''20240101'')) (toLowerCase ''bob@x.com'')
   \<and> mapGet (additionalMap (additionalOnly ''20240101'')) (toLowerCase ''bob@x.com'')
        = Some (bobRow ''20240101'' ''12m'' ''alpha'')
   \<and> status (performExactSearch utc ''bob@x.com'' (additionalOnly ''20240101'')) = Valid
   \<and> deviceLimit (performExactSearch utc ''bob@x.com'' (additionalOnly ''20240101'')) = 2
   \<and> organization (performExactSearch utc ''bob@x.com'' (additionalOnly ''20240101'')) = ''Alpha School''
   \<and> expirationDate (performExactSearch utc ''bob@x.com'' (additionalOnly ''20240101'')) = ''20250101''"
proof -
  have a: "\<not> isInMainSource (dataSources (additionalOnly ''20240101'')) (toLowerCase ''bob@x.com'')"
    "mapGet (additionalMap (additionalOnly ''20240101'')) (toLowerCase ''bob@x.com'')
        = Some (bobRow ''20240101'' ''12m'' ''alpha'')"
    by (simp_all add: query_eval date_eval)
  have e: "calculateExpirationDate utc (map_option trim (rowGet (bobRow ''20240101'' ''12m'' ''alpha'') ''rat''))
                 (map_option trim (rowGet (bobRow ''20240101'' ''12m'' ''alpha'') ''pov'')) = ''20250101''"
    by (simp add: query_eval date_eval)
  have h: "map_option trim (rowGet (bobRow ''20240101'' ''12m'' ''alpha'') ''Org'') = Some ''alpha''"
    by (simp add: query_eval date_eval)
  have c: "mapGet (confData (additionalOnly ''20240101''))
             (if falsy (Some ''alpha'') then [] else getBaseName (the (Some ''alpha'')))
           = Some \<lparr>orgName = ''Alpha School'', subDetails = ''All Apps plan''\<rparr>"
    by (simp add: query_eval date_eval)
  show ?thesis
    using exact_search_additional_only [OF a e [symmetric] h [symmetric] c [symmetric] refl] a
    by (simp add: orElse_def falsy_def)
qed

text \<open>
  C1 as stated fails for a rolling approval: the computed expiration is \<open>"Rolling"\<close>, not a
  date, and the account is Valid all the same.
\<close>

theorem exact_search_rolling_counterexample:
  "\<not> isInMainSource (dataSources (additionalOnly ''rolling'')) ''bob@x.com''
   \<and> mapHas (additionalMap (additionalOnly ''rolling'')) ''bob@x.com''
   \<and> calculateExpirationDate utc (Some ''rolling'') (Some ''12m'') = ''Rolling''
   \<and> status (performExactSearch utc ''bob@x.com'' (additionalOnly ''rolling'')) = Valid
   \<and> expirationDate (performExactSearch utc ''bob@x.com'' (additionalOnly ''rolling'')) = ''Rolling''"
  by (simp add: query_eval date_eval)

text \<open>
  C2 (as the code has it). For an email in the AdditionalRecord index whose Org hint is not
  empty after trimming, a Valid answer carries as organization the orgName of the
  configuration found under the hint's basename, and the trimmed hint itself when there
  is no such configuration or its orgName is empty; an Invalid answer carries \<open>"-"\<close>.
  An email matched in a main DataSource is Valid, so the joined names of the matched
  organizations are replaced in that case too.
\<close>

theorem exact_search_org_override:
  assumes "mapGet (additionalMap appData) (toLowerCase e) = Some row"
    and "rowGet row ''Org'' = Some org" and "trim org \<noteq> []"
    and "r = performExactSearch tz e appData"
  shows "(status r = Valid \<longrightarrow>
            organization r =
              (case mapGet (confData appData) (getBaseName (trim org)) of
                 None \<Rightarrow> trim org
               | Some c \<Rightarrow> if orgName c = [] then trim org else orgName c))
       \<and> (status r = Invalid \<longrightarrow> organization r = ''-'')
       \<and> (foundInOrgs appData (toLowerCase e) \<noteq> [] \<longrightarrow> status r = Valid)"
proof -
  have nf: "\<not> falsy (Some (trim org))" using assms(3) by (simp add: falsy_def)
  show ?thesis
    unfolding assms(4) performExactSearch_def Let_def assms(1) option.case
      applyAdditionalMatch_def applyMainMatch_def resetInvalid_def assms(2) option.map
    using nf
    by (auto simp: orElse_def split: option.splits if_splits)
qed

theorem exact_search_org_override_witness:
  "mapGet (additionalMap (inMainWithHint ''beta'')) (toLowerCase ''bob@x.com'')
      = Some (bobRow ''20240101'' ''12m'' ''beta'')
   \<and> rowGet (bobRow ''20240101'' ''12m'' ''beta'') ''Org'' = Some ''beta''
   \<and> trim ''beta'' \<noteq> []
   \<and> status (performExactSearch utc ''bob@x.com'' (inMainWithHint ''beta'')) = Valid
   \<and> organization (performExactSearch utc ''bob@x.com'' (inMainWithHint ''beta'')) = ''Beta College''"
proof -
  have a: "mapGet (additionalMap (inMainWithHint ''beta'')) (toLowerCase ''bob@x.com'')
      = Some (bobRow ''20240101'' ''12m'' ''beta'')"
    "rowGet (bobRow ''20240101'' ''12m'' ''beta'') ''Org'' = Some ''beta''"
    "trim ''beta'' \<noteq> []"
    by (simp_all add: query_eval date_eval)
  have b: "foundInOrgs (inMainWithHint ''beta'') (toLowerCase ''bob@x.com'') \<noteq> []"
    by (simp add: query_eval date_eval)
  have c: "(case mapGet (confData (inMainWithHint ''beta'')) (getBaseName (trim ''beta'')) of
                 None \<Rightarrow> trim ''beta''
               | Some c \<Rightarrow> if orgName c = [] then trim ''beta'' else orgName c) = ''Beta College''"
    by (simp add: query_eval date_eval)
  show ?thesis
    using exact_search_org_override [OF a refl] a b unfolding c by blast
qed

text \<open>
  C2 as stated fails when no configuration matches the hint: the organization is
  overridden all the same, with the text of the hint.
\<close>

theorem exact_search_org_override_counterexample:
  "mapHas (additionalMap (inMainWithHint ''zzz'')) ''bob@x.com''
   \<and> rowGet (bobRow ''20240101'' ''12m'' ''zzz'') ''Org'' = Some ''zzz''
   \<and> mapGet (confData (inMainWithHint ''zzz'')) (getBaseName ''zzz'') = None
   \<and> joinWith '' & '' (map orgName (foundInOrgs (inMainWithHint ''zzz'') ''bob@x.com''))
        = ''Alpha School & Beta College''
   \<and> status (performExactSearch utc ''bob@x.com'' (inMainWithHint ''zzz'')) = Valid
   \<and> organization (performExactSearch utc ''bob@x.com'' (inMainWithHint ''zzz'')) = ''zzz''"
  by (simp add: query_eval date_eval)

section \<open>Claims about the listings\<close>

text \<open>
  C4. The expired-accounts listing holds, in the order of the AdditionalRecord index, one
  entry for exactly those of its records whose computed expiration is neither \<open>"-"\<close>
  nor \<open>"Rolling"\<close>, is at most \<open>today\<close> in the string order, and whose email is a key of
  some DataSource index. When an approver filter is supplied (not \<open>undefined\<close>, not empty)
  and is not \<open>admin\<close> in any case, only the entries remain whose approver (the Approver
  of the record, shown as \<open>"-"\<close> when the record has none) equals the filter up to case;
  otherwise all of them are returned.
\<close>

theorem getExpiredAccounts_exact:
  "getExpiredAccounts tz appData today approverFilter =
     map (\<lambda>(e, row). \<lparr>exp_email = e,
                   exp_organization = orElse (rowGet row ''Org'') ''Unknown'',
                   exp_approver = orElse (rowGet row ''Approver'') ''-'',
                   exp_expirationDate = calculateExpirationDate tz (rowGet row ''rat'') (rowGet row ''pov'')\<rparr>)
       (filter (\<lambda>(e, row).
            calculateExpirationDate tz (rowGet row ''rat'') (rowGet row ''pov'') \<notin> {''-'', ''Rolling''}
          \<and> strLe (calculateExpirationDate tz (rowGet row ''rat'') (rowGet row ''pov'')) today
          \<and> (\<exists>ds \<in> set (dataSources appData). e \<in> set (mapKeys (dataMap ds)))
          \<and> (approverFilter \<notin> {None, Some []} \<and> toLowerCase (the approverFilter) \<noteq> ''admin''
               \<longrightarrow> toLowerCase (orElse (rowGet row ''Approver'') ''-'')
                     = toLowerCase (the approverFilter)))
        (additionalMap appData))"
proof -
  have main: "isInMainSource (dataSources appData) e
                \<longleftrightarrow> (\<exists>ds \<in> set (dataSources appData). e \<in> set (mapKeys (dataMap ds)))" for e
    by (simp add: isInMainSource_def list_ex_iff mapHas_def mapKeys_def)
  show ?thesis
  proof (cases "\<not> falsy approverFilter \<and> toLowerCase (the approverFilter) \<noteq> ''admin''")
    case True
    then have f: "approverFilter \<notin> {None, Some []} \<and> toLowerCase (the approverFilter) \<noteq> ''admin''"
      by (auto simp: falsy_def)
    show ?thesis
      unfolding getExpiredAccounts_def Let_def expiredLoop_eq
      using True f
      by (auto simp: filter_map o_def main calculateExpirationDate_nonempty split_def
               intro!: filter_cong)
  next
    case False
    then have f: "\<not> (approverFilter \<notin> {None, Some []} \<and> toLowerCase (the approverFilter) \<noteq> ''admin'')"
      by (auto simp: falsy_def)
    show ?thesis
      unfolding getExpiredAccounts_def Let_def expiredLoop_eq
      using False f
      by (auto simp: main calculateExpirationDate_nonempty split_def intro!: filter_cong)
  qed
qed

theorem getExpiredAccounts_exact_witness:
  "getExpiredAccounts utc (inMainWithHint ''alpha'') ''20250201'' (Some ''Carol'')
     = [\<lparr>exp_email = ''bob@x.com'', exp_organization = ''alpha'', exp_approver = ''carol'',
          exp_expirationDate = ''20250101''\<rparr>]
   \<and> getExpiredAccounts utc (inMainWithHint ''alpha'') ''20250201'' (Some ''dave'') = []
   \<and> getExpiredAccounts utc (additionalOnly ''20240101'') ''20250201'' (Some ''admin'') = []"
  by (subst getExpiredAccounts_exact)+ (simp add: query_eval date_eval mapKeys_def)

text \<open>
  C5. In the quick-audit output no two entries share an email, whatever the number of
  DataSources an email occurs in; and every record that passes the Not Paid test (approval
  number at or above the threshold, email in some DataSource, email not in the
  PaymentRecord) has exactly one entry, with reason Not Paid.
\<close>

theorem quick_audit_no_duplicate_emails:
  assumes "wfMap (additionalMap appData)"
  shows "distinct (map qa_email (getQuickAuditAccounts appData))
       \<and> (\<forall>(e, row) \<in> set (additionalMap appData).
             \<not> belowThreshold (ratNumOf (map_option trim (rowGet row ''rat'')))
             \<and> isInMainSource (dataSources appData) e \<and> \<not> mapHas (paymentMap appData) e
             \<longrightarrow> (\<exists>a. filter (\<lambda>x. qa_email x = e) (getQuickAuditAccounts appData) = [a]
                      \<and> qa_reason a = NotPaid))"
proof -
  let ?cond = "\<lambda>(e, row). \<not> belowThreshold (ratNumOf (map_option trim (rowGet row ''rat'')))
                   \<and> isInMainSource (dataSources appData) e
                   \<and> \<not> mapHas (paymentMap appData) e"
  let ?mk = "\<lambda>(e, row).
          \<lparr>qa_email = e, qa_rat = orElse (map_option trim (rowGet row ''rat'')) ''-'',
            qa_approver = orElse (map_option trim (rowGet row ''Approver'')) ''-'',
            qa_pov = orElse (map_option trim (rowGet row ''pov'')) ''-'',
            qa_reason = NotPaid\<rparr>"
  let ?st1 = "notPaidLoop appData (additionalMap appData) ([], [])"
  let ?out = "getQuickAuditAccounts appData"
  have fst1: "fst ?st1 = map ?mk (filter ?cond (additionalMap appData))"
    and snd1: "set (snd ?st1) = fst ` set (filter ?cond (additionalMap appData))"
    by (simp_all add: notPaidLoop_eq set_foldl_setAdd)
  have emails1: "map qa_email (fst ?st1) = map fst (filter ?cond (additionalMap appData))"
    unfolding fst1 by (simp add: split_def)
  have "distinct (map fst (filter ?cond (additionalMap appData)))"
    using assms by (simp add: wfMap_def distinct_map_filter)
  then have inv1: "auditInv ?st1"
    unfolding auditInv_def emails1 snd1 by simp
  have inv: "auditInv (notRegisteredLoop appData (dataSources appData) ?st1)"
    using inv1 by (rule notRegisteredLoop_inv)
  then have d: "distinct (map qa_email ?out)"
    by (simp add: getQuickAuditAccounts_def auditInv_def)
  obtain ys where ys: "?out = fst ?st1 @ ys"
    using notRegisteredLoop_extends [of appData "dataSources appData" ?st1]
    by (auto simp: getQuickAuditAccounts_def)
  have np: "\<exists>a. filter (\<lambda>x. qa_email x = e) ?out = [a] \<and> qa_reason a = NotPaid"
    if "(e, row) \<in> set (additionalMap appData)" "?cond (e, row)" for e row
  proof -
    have "?mk (e, row) \<in> set (fst ?st1)"
      unfolding fst1 using that by (auto simp: image_iff intro!: bexI [of _ "(e, row)"])
    then have m: "?mk (e, row) \<in> set ?out" unfolding ys by simp
    have "filter (\<lambda>x. qa_email x = qa_email (?mk (e, row))) ?out = [?mk (e, row)]"
      using d m by (rule distinct_map_filter_single)
    then show ?thesis by auto
  qed
  show ?thesis using d np by auto
qed

theorem quick_audit_no_duplicate_emails_witness:
  "wfMap (additionalMap (auditData ''20250801''))
   \<and> map (\<lambda>a. (qa_email a, qa_reason a)) (getQuickAuditAccounts (auditData ''20250801''))
       = [(''bob@x.com'', NotPaid), (''ann@x.com'', NotRegistered)]
   \<and> distinct (map qa_email (getQuickAuditAccounts (auditData ''20250801'')))"
proof -
  have a: "wfMap (additionalMap (auditData ''20250801''))"
    by (simp add: audit_eval)
  have b: "map (\<lambda>a. (qa_email a, qa_reason a)) (getQuickAuditAccounts (auditData ''20250801''))
       = [(''bob@x.com'', NotPaid), (''ann@x.com'', NotRegistered)]"
    by (simp add: audit_eval query_eval date_eval)
  show ?thesis
    using quick_audit_no_duplicate_emails [OF a] a b by blast
qed
text \<open>
  C10 (as the code has it). An email of the AdditionalRecord index is listed by the quick
  audit with reason Not Paid exactly when it is in some DataSource index, is not in the
  PaymentRecord index, and its trimmed \<open>rat\<close> passes the threshold test of the pass:
  after an optional \<open>+\<close> it starts with a run of decimal digits whose value is at least
  20250724, and what follows the digits is ignored. So a \<open>rat\<close> that is missing, empty,
  starts with another character, or whose digits are worth less than 20250724 (0 included)
  keeps the email out of the pass.
\<close>

theorem notPaid_pass_threshold:
  assumes "wfMap (additionalMap appData)" and "(e, row) \<in> set (additionalMap appData)"
  shows "(\<exists>a \<in> set (getQuickAuditAccounts appData). qa_email a = e \<and> qa_reason a = NotPaid)
       \<longleftrightarrow> (isInMainSource (dataSources appData) e \<and> \<not> mapHas (paymentMap appData) e
            \<and> (\<exists>rat sg ds r. rowGet row ''rat'' = Some rat \<and> trim rat = sg @ ds @ r
                  \<and> (sg = [] \<or> sg = ''+'') \<and> ds \<noteq> [] \<and> list_all isDigit ds
                  \<and> (r = [] \<or> \<not> isDigit (hd r)) \<and> 20250724 \<le> digitsToNat 0 ds))"
proof -
  let ?cond = "\<lambda>(e, row). \<not> belowThreshold (ratNumOf (map_option trim (rowGet row ''rat'')))
                   \<and> isInMainSource (dataSources appData) e
                   \<and> \<not> mapHas (paymentMap appData) e"
  let ?mk = "\<lambda>(e, row).
          \<lparr>qa_email = e, qa_rat = orElse (map_option trim (rowGet row ''rat'')) ''-'',
            qa_approver = orElse (map_option trim (rowGet row ''Approver'')) ''-'',
            qa_pov = orElse (map_option trim (rowGet row ''pov'')) ''-'',
            qa_reason = NotPaid\<rparr>"
  let ?st1 = "notPaidLoop appData (additionalMap appData) ([], [])"
  let ?out = "getQuickAuditAccounts appData"
  let ?R = "\<exists>rat sg ds r. rowGet row ''rat'' = Some rat \<and> trim rat = sg @ ds @ r
                  \<and> (sg = [] \<or> sg = ''+'') \<and> ds \<noteq> [] \<and> list_all isDigit ds
                  \<and> (r = [] \<or> \<not> isDigit (hd r)) \<and> 20250724 \<le> digitsToNat 0 ds"
  have fst1: "fst ?st1 = map ?mk (filter ?cond (additionalMap appData))"
    by (simp add: notPaidLoop_eq)
  obtain ys where ys: "?out = fst ?st1 @ ys"
    "\<forall>a \<in> set ys. qa_reason a = NotRegistered \<and> \<not> mapHas (additionalMap appData) (qa_email a)"
    using notRegisteredLoop_extends [of appData "dataSources appData" ?st1]
    by (auto simp: getQuickAuditAccounts_def)
  have thr: "\<not> belowThreshold (ratNumOf (map_option trim (rowGet row ''rat''))) \<longleftrightarrow> ?R"
  proof (cases "rowGet row ''rat''")
    case None
    then show ?thesis using belowThreshold_iff [of "[]"] by simp
  next
    case (Some rat)
    show ?thesis
      using belowThreshold_iff [of "trim rat"] by (simp add: Some dropWhile_trim)
  qed
  have np: "\<forall>a \<in> set (fst ?st1). qa_reason a = NotPaid"
    unfolding fst1 by auto
  have "(\<exists>a \<in> set ?out. qa_email a = e \<and> qa_reason a = NotPaid)
          \<longleftrightarrow> (\<exists>a \<in> set (fst ?st1). qa_email a = e)"
    unfolding ys(1) using ys(2) np by auto
  also have "\<dots> \<longleftrightarrow> (\<exists>row'. (e, row') \<in> set (additionalMap appData) \<and> ?cond (e, row'))"
    unfolding fst1 by force
  also have "\<dots> \<longleftrightarrow> ?cond (e, row)"
    using assms eq_key_imp_eq_value [of "additionalMap appData" e] unfolding wfMap_def by blast
  also have "\<dots> \<longleftrightarrow> isInMainSource (dataSources appData) e \<and> \<not> mapHas (paymentMap appData) e \<and> ?R"
    using thr by auto
  finally show ?thesis .
qed

theorem notPaid_pass_threshold_witness:
  "wfMap (additionalMap (auditData ''20250801x''))
   \<and> (''bob@x.com'', bobRow ''20250801x'' ''12m'' ''alpha'')
        \<in> set (additionalMap (auditData ''20250801x''))
   \<and> rowGet (bobRow ''20250801x'' ''12m'' ''alpha'') ''rat'' = Some ''20250801x''
   \<and> trim ''20250801x'' = [] @ ''20250801'' @ ''x''
   \<and> \<not> isDigit (hd ''x'') \<and> 20250724 \<le> digitsToNat 0 ''20250801''
   \<and> (\<exists>a \<in> set (getQuickAuditAccounts (auditData ''20250801x'')).
          qa_email a = ''bob@x.com'' \<and> qa_reason a = NotPaid)"
proof -
  let ?d = "auditData ''20250801x''"
  let ?row = "bobRow ''20250801x'' ''12m'' ''alpha''"
  have wf: "wfMap (additionalMap ?d)" by (simp add: audit_eval)
  have mem: "(''bob@x.com'', ?row) \<in> set (additionalMap ?d)" by (simp add: audit_eval)
  have main: "isInMainSource (dataSources ?d) ''bob@x.com''"
    "\<not> mapHas (paymentMap ?d) ''bob@x.com''"
    by (simp_all add: audit_eval query_eval)
  have a: "rowGet ?row ''rat'' = Some ''20250801x''"
    "trim ''20250801x'' = [] @ ''20250801'' @ ''x''"
    "''20250801'' \<noteq> []" "list_all isDigit ''20250801''"
    "''x'' = [] \<or> \<not> isDigit (hd ''x'')" "20250724 \<le> digitsToNat 0 ''20250801''"
    by (simp_all add: query_eval date_eval)
  then have "\<exists>rat sg ds r. rowGet ?row ''rat'' = Some rat \<and> trim rat = sg @ ds @ r
        \<and> (sg = [] \<or> sg = ''+'') \<and> ds \<noteq> [] \<and> list_all isDigit ds
        \<and> (r = [] \<or> \<not> isDigit (hd r)) \<and> 20250724 \<le> digitsToNat 0 ds"
    by blast
  then have "\<exists>a \<in> set (getQuickAuditAccounts ?d). qa_email a = ''bob@x.com'' \<and> qa_reason a = NotPaid"
    using notPaid_pass_threshold [OF wf mem] main by blast
  then show ?thesis using wf mem a by simp
qed

text \<open>
  C10 as stated fails for a string that starts with \<open>+\<close>: it starts with a non-digit and
  passes the test.
\<close>

theorem notPaid_plus_sign_counterexample:
  "\<not> isDigit (hd ''+20250801'')
   \<and> \<not> belowThreshold (ratNumOf (Some ''+20250801''))
   \<and> map (\<lambda>a. (qa_email a, qa_rat a, qa_reason a)) (getQuickAuditAccounts (auditData ''+20250801''))
       = [(''bob@x.com'', ''+20250801'', NotPaid), (''ann@x.com'', ''-'', NotRegistered)]"
  by (simp add: audit_eval query_eval date_eval)

section \<open>Claims about fuzzy search\<close>

text \<open>
  C8. For a search term of at least three characters, a fuzzy search answers with the
  fixed hit message for every AppData in which some indexed email contains the term, so
  any two such AppData get the same answer; on a miss the answer carries the search
  string of the caller and nothing else. This holds for the v1 route and for the session
  route, whose term is the trimmed, lower-cased search string.
\<close>

theorem fuzzy_search_reveals_only_found:
  assumes "3 \<le> length t"
  shows "(someEmailContains a1 t \<and> someEmailContains a2 t \<longrightarrow>
            performFuzzySearch t a1 = (MsgPotentialMatches, 200)
            \<and> performFuzzySearch t a2 = performFuzzySearch t a1)
       \<and> (\<not> someEmailContains a1 t \<longrightarrow> performFuzzySearch t a1 = (ErrNoMatches t, 404))
       \<and> (toLowerCase (trim searchEmail) = t \<longrightarrow>
            (someEmailContains a1 t \<and> someEmailContains a2 t \<longrightarrow>
               POST_fuzzy searchEmail a1 = (MsgPotentialMatches, 200)
               \<and> POST_fuzzy searchEmail a2 = POST_fuzzy searchEmail a1)
            \<and> (\<not> someEmailContains a1 t \<longrightarrow>
                 POST_fuzzy searchEmail a1 = (ErrNoMatches searchEmail, 200)))"
  using assms by (auto simp: performFuzzySearch_def POST_fuzzy_def fuzzyFound_iff Let_def)

theorem fuzzy_search_reveals_only_found_witness:
  "3 \<le> length ''bob''
   \<and> someEmailContains (auditData ''20250801'') ''bob''
   \<and> someEmailContains (additionalOnly ''rolling'') ''bob''
   \<and> performFuzzySearch ''bob'' (auditData ''20250801'') = (MsgPotentialMatches, 200)
   \<and> performFuzzySearch ''bob'' (additionalOnly ''rolling'')
       = performFuzzySearch ''bob'' (auditData ''20250801'')
   \<and> \<not> someEmailContains (auditData ''20250801'') ''zed''
   \<and> performFuzzySearch ''zed'' (auditData ''20250801'') = (ErrNoMatches ''zed'', 404)
   \<and> POST_fuzzy '' Zed '' (auditData ''20250801'') = (ErrNoMatches '' Zed '', 200)"
proof -
  have l: "3 \<le> length ''bob''" "3 \<le> length ''zed''" by simp_all
  have z: "toLowerCase (trim '' Zed '') = ''zed''"
    by (simp add: fuzzy_eval char_of_def bit_Suc_0_iff)
  have "''bob@x.com'' \<in> indexedEmails (auditData ''20250801'')"
    "''bob@x.com'' \<in> indexedEmails (additionalOnly ''rolling'')"
    "''bob@x.com'' = [] @ ''bob'' @ ''@x.com''"
    by (simp_all add: indexedEmails_def fuzzy_eval)
  then have h: "someEmailContains (auditData ''20250801'') ''bob''"
    "someEmailContains (additionalOnly ''rolling'') ''bob''"
    unfolding someEmailContains_def by blast+
  have "\<not> fuzzyFound ''zed'' (auditData ''20250801'')"
    by (simp add: fuzzy_eval)
  then have m: "\<not> someEmailContains (auditData ''20250801'') ''zed''"
    by (simp add: fuzzyFound_iff)
  show ?thesis
    using fuzzy_search_reveals_only_found [OF l(1), of "auditData ''20250801''" "additionalOnly ''rolling''"]
      fuzzy_search_reveals_only_found [OF l(2), of "auditData ''20250801''" "auditData ''20250801''" "'' Zed ''"]
      l h m z by simp
qed

section \<open>Claims about the cache\<close>

text \<open>
  C7. In every state the module reaches from the empty cache, at most one load is in
  flight, and one is exactly in the state loading. A call leads from empty to loading
  and starts the one load, leaves loading as it is, returning the promise of the load in
  flight and starting none, and leaves loaded as it is. The handler of a load that
  succeeded with some data is enabled for the load in flight; it stores that data in
  \<open>cachedData\<close> and leads from loading to loaded, where a call returns that data. Once
  \<open>cachedData\<close> is set, every later call returns that same data and no load is started
  any more. The handler of a failed load is enabled for the load in flight; it leaves
  the cache empty, and the next call starts a new load.
\<close>

theorem cache_single_flight:
  assumes "exec initialRepository es = Some s"
  shows "length (inFlight s) \<le> 1
       \<and> (inFlight s \<noteq> [] \<longleftrightarrow> cacheStateOf s = Loading)
       \<and> (\<forall>e s'. step s e = Some s' \<longrightarrow>
             (cacheStateOf s, cacheStateOf s') \<in>
               {(Empty, Loading), (Loading, Loading), (Loading, Loaded), (Loading, Empty),
                (Loaded, Loaded)})
       \<and> (\<forall>s'. step s Call = Some s' \<longrightarrow>
             (cacheStateOf s, cacheStateOf s') \<in>
               {(Empty, Loading), (Loading, Loading), (Loaded, Loaded)})
       \<and> (cacheStateOf s = Empty \<longrightarrow>
             getData s = (Pending (loadsStarted s),
                          s\<lparr>dataPromise := Some (loadsStarted s), inFlight := [loadsStarted s],
                            loadsStarted := Suc (loadsStarted s)\<rparr>))
       \<and> (cacheStateOf s = Loading \<longrightarrow> (\<exists>p. inFlight s = [p] \<and> getData s = (Pending p, s)))
       \<and> (\<forall>p d. p \<in> set (inFlight s) \<longrightarrow>
             (\<exists>s'. step s (LoadSucceeds p d) = Some s' \<and> cacheStateOf s = Loading
                  \<and> cachedData s' = Some d \<and> cacheStateOf s' = Loaded \<and> inFlight s' = []
                  \<and> loadsStarted s' = loadsStarted s
                  \<and> getData s' = (ResolvedWith d, s')))
       \<and> (\<forall>d. cachedData s = Some d \<longrightarrow>
             (\<forall>es' s'. exec s es' = Some s' \<longrightarrow>
                getData s' = (ResolvedWith d, s') \<and> loadsStarted s' = loadsStarted s))
       \<and> (\<forall>p. p \<in> set (inFlight s) \<longrightarrow>
             (\<exists>s'. step s (LoadFails p) = Some s' \<and> cacheStateOf s = Loading
                  \<and> cachedData s' = None \<and> inFlight s' = []))
       \<and> (\<forall>p s'. step s (LoadFails p) = Some s' \<longrightarrow>
             cacheStateOf s' = Empty
             \<and> fst (getData s') = Pending (loadsStarted s)
             \<and> inFlight (snd (getData s')) = [loadsStarted s]
             \<and> loadsStarted (snd (getData s')) = Suc (loadsStarted s))"
proof -
  have inv: "cacheInv s"
    using cacheInv_initial assms by (rule cacheInv_exec)
  have a: "length (inFlight s) \<le> 1"
    using inv by (auto simp: cacheInv_def split: cacheState.splits)
  have b: "inFlight s \<noteq> [] \<longleftrightarrow> cacheStateOf s = Loading"
    using inv by (auto simp: cacheInv_def split: cacheState.splits)
  have c: "(cacheStateOf s, cacheStateOf s') \<in>
               {(Empty, Loading), (Loading, Loading), (Loading, Loaded), (Loading, Empty),
                (Loaded, Loaded)}" if "step s e = Some s'" for e s'
    using inv that
    by (cases e)
       (auto simp: cacheInv_def cacheStateOf_def step_def getData_def onLoaded_def onFailed_def
             split: option.splits if_splits)
  have c': "(cacheStateOf s, cacheStateOf s') \<in>
               {(Empty, Loading), (Loading, Loading), (Loaded, Loaded)}"
    if "step s Call = Some s'" for s'
    using inv that
    by (auto simp: cacheInv_def cacheStateOf_def step_def getData_def
             split: option.splits if_splits)
  have g: "getData s = (Pending (loadsStarted s),
                          s\<lparr>dataPromise := Some (loadsStarted s), inFlight := [loadsStarted s],
                            loadsStarted := Suc (loadsStarted s)\<rparr>)"
    if "cacheStateOf s = Empty"
    using inv that
    by (auto simp: cacheInv_def cacheStateOf_def getData_def split: option.splits if_splits)
  have d: "\<exists>p. inFlight s = [p] \<and> getData s = (Pending p, s)" if "cacheStateOf s = Loading"
    using inv that
    by (auto simp: cacheInv_def cacheStateOf_def getData_def split: option.splits if_splits)
  have h: "\<exists>s'. step s (LoadSucceeds p d) = Some s' \<and> cacheStateOf s = Loading
                  \<and> cachedData s' = Some d \<and> cacheStateOf s' = Loaded \<and> inFlight s' = []
                  \<and> loadsStarted s' = loadsStarted s
                  \<and> getData s' = (ResolvedWith d, s')"
    if "p \<in> set (inFlight s)" for p d
  proof -
    have l: "cacheStateOf s = Loading" using that b by auto
    then have one: "inFlight s = [p]" using d that by auto
    have "step s (LoadSucceeds p d) = Some (onLoaded p d s)"
      using that by (simp add: step_def)
    moreover have "cachedData (onLoaded p d s) = Some d" "cacheStateOf (onLoaded p d s) = Loaded"
      "inFlight (onLoaded p d s) = []" "loadsStarted (onLoaded p d s) = loadsStarted s"
      "getData (onLoaded p d s) = (ResolvedWith d, onLoaded p d s)"
      using one by (simp_all add: onLoaded_def cacheStateOf_def getData_def)
    ultimately show ?thesis using l by blast
  qed
  have e: "getData s' = (ResolvedWith d, s') \<and> loadsStarted s' = loadsStarted s"
    if "cachedData s = Some d" "exec s es' = Some s'" for d es' s'
    using loaded_exec [OF that(1) inv that(2)] by (simp add: getData_def)
  have k: "\<exists>s'. step s (LoadFails p) = Some s' \<and> cacheStateOf s = Loading
                  \<and> cachedData s' = None \<and> inFlight s' = []"
    if "p \<in> set (inFlight s)" for p
  proof -
    have l: "cacheStateOf s = Loading" using that b by auto
    then have one: "inFlight s = [p]" using d that by auto
    have n: "cachedData s = None" using l by (auto simp: cacheStateOf_def split: if_splits)
    have "step s (LoadFails p) = Some (onFailed p s)"
      using that by (simp add: step_def)
    moreover have "cachedData (onFailed p s) = None" "inFlight (onFailed p s) = []"
      using one n by (simp_all add: onFailed_def)
    ultimately show ?thesis using l by blast
  qed
  have f: "cacheStateOf s' = Empty
             \<and> fst (getData s') = Pending (loadsStarted s)
             \<and> inFlight (snd (getData s')) = [loadsStarted s]
             \<and> loadsStarted (snd (getData s')) = Suc (loadsStarted s)"
    if "step s (LoadFails p) = Some s'" for p s'
    using inv that
    by (auto simp: cacheInv_def cacheStateOf_def step_def getData_def onFailed_def
             split: option.splits if_splits)
  show ?thesis
    apply (intro conjI allI impI)
    using a b c c' g d h e k f by blast+
qed

theorem cache_single_flight_witness:
  "exec initialRepository [Call, Call, LoadFails 0, Call]
     = Some \<lparr>cachedData = None, dataPromise = Some 1, inFlight = [1], loadsStarted = 2\<rparr>
   \<and> getData \<lparr>cachedData = None, dataPromise = Some 1, inFlight = [1], loadsStarted = 2\<rparr>
       = (Pending 1, \<lparr>cachedData = None, dataPromise = Some 1, inFlight = [1], loadsStarted = 2\<rparr>)
   \<and> (\<exists>s'. step \<lparr>cachedData = None, dataPromise = Some 1, inFlight = [1], loadsStarted = 2\<rparr>
               (LoadSucceeds 1 (auditData ''20250801'')) = Some s'
            \<and> cachedData s' = Some (auditData ''20250801'')
            \<and> getData s' = (ResolvedWith (auditData ''20250801''), s'))
   \<and> exec initialRepository [Call, LoadSucceeds 0 (auditData ''20250801''), Call]
     = Some \<lparr>cachedData = Some (auditData ''20250801''), dataPromise = Some 0, inFlight = [],
              loadsStarted = 1\<rparr>
   \<and> fst (getData \<lparr>cachedData = Some (auditData ''20250801''), dataPromise = Some 0,
                    inFlight = [], loadsStarted = 1\<rparr>) = ResolvedWith (auditData ''20250801'')"
proof -
  let ?s1 = "\<lparr>cachedData = None, dataPromise = Some 1, inFlight = [1], loadsStarted = 2\<rparr>"
  let ?s2 = "\<lparr>cachedData = Some (auditData ''20250801''), dataPromise = Some 0, inFlight = [],
              loadsStarted = 1\<rparr>"
  have r1: "exec initialRepository [Call, Call, LoadFails 0, Call] = Some ?s1"
    by (simp add: cache_eval)
  have r2: "exec initialRepository [Call, LoadSucceeds 0 (auditData ''20250801''), Call] = Some ?s2"
    by (simp add: cache_eval)
  have l: "cacheStateOf ?s1 = Loading" "1 \<in> set (inFlight ?s1)" by (simp_all add: cache_eval)
  have c: "cachedData ?s2 = Some (auditData ''20250801'')" "exec ?s2 [] = Some ?s2" by simp_all
  have "\<exists>p. inFlight ?s1 = [p] \<and> getData ?s1 = (Pending p, ?s1)"
    using cache_single_flight [OF r1] l by blast
  then have g1: "getData ?s1 = (Pending 1, ?s1)" by auto
  have g3: "\<exists>s'. step ?s1 (LoadSucceeds 1 (auditData ''20250801'')) = Some s'
            \<and> cachedData s' = Some (auditData ''20250801'')
            \<and> getData s' = (ResolvedWith (auditData ''20250801''), s')"
    using cache_single_flight [OF r1] l(2) by blast
  have "getData ?s2 = (ResolvedWith (auditData ''20250801''), ?s2)"
    using cache_single_flight [OF r2] c by blast
  then have g2: "fst (getData ?s2) = ResolvedWith (auditData ''20250801'')" by simp
  show ?thesis using r1 r2 g1 g2 g3 by blast
qed

section \<open>Claims about the loaders\<close>

text \<open>
  C9. The tabular loader is a total function from the text, the label and the expected
  headers to a list of rows: nothing in it throws. A data line with fewer fields than
  there are headers, or with an empty field in the email column, is skipped and nothing
  else: the loader returns what it returns for the same lines without that one.
\<close>

theorem parseCsvData_skips_malformed_line:
  assumes "splitLines [] (trim text) = hdr # before @ line # after"
    and "headers = filter (\<lambda>h. h \<noteq> []) (map trim (parseCsvLine hdr))"
    and "length (parseCsvLine line) < length headers
         \<or> (\<forall>e i. find (\<lambda>h. toLowerCase h = ''email'') headers = Some e
                \<longrightarrow> indexOf headers e = Some i \<longrightarrow> parseCsvLine line ! i = [])"
  shows "parseCsvData text f expected = parseCsvLines (hdr # before @ after) f expected"
proof -
  have skip: "processLine headers e line = []"
    if "find (\<lambda>h. toLowerCase h = ''email'') headers = Some e" for e
  proof (cases "indexOf headers e")
    case None
    then show ?thesis by (rule processLine_no_index)
  next
    case (Some i)
    show ?thesis
      using assms(3) that Some processLine_short [of line headers e]
        processLine_no_email [OF Some, of line] by blast
  qed
  have loop: "dataLinesLoop headers e (before @ line # after) []
                = dataLinesLoop headers e (before @ after) []"
    if "find (\<lambda>h. toLowerCase h = ''email'') headers = Some e" for e
    using skip [OF that] by (simp add: dataLinesLoop_eq)
  have single: "dataLinesLoop headers e (before @ after) [] = []" if "before @ after = []" for e
    using that by simp
  show ?thesis
    unfolding parseCsvData_def assms(1)
    unfolding parseCsvLines_def
    using loop single
    by (auto simp: Let_def assms(2) [symmetric] split: option.splits)
qed

theorem parseCsvData_skips_malformed_line_witness:
  "splitLines [] (trim sampleCsv)
     = ''Email,Product Configurations'' # [''bob@x.com,All Apps''] @ ''broken''
         # ['',Single App'', ''ann@x.com,Single App'']
   \<and> length (parseCsvLine ''broken'') < length [''Email'', ''Product Configurations'']
   \<and> parseCsvLine '',Single App'' ! 0 = []
   \<and> parseCsvData sampleCsv ''alpha.csv'' EXPECTED_MAIN_HEADERS
       = parseCsvLines [''Email,Product Configurations'', ''bob@x.com,All Apps'',
                        '',Single App'', ''ann@x.com,Single App''] ''alpha.csv'' EXPECTED_MAIN_HEADERS
   \<and> parseCsvData sampleCsv ''alpha.csv'' EXPECTED_MAIN_HEADERS
       = parseCsvLines [''Email,Product Configurations'', ''bob@x.com,All Apps'',
                        ''broken'', ''ann@x.com,Single App''] ''alpha.csv'' EXPECTED_MAIN_HEADERS
   \<and> parseCsvData sampleCsv ''alpha.csv'' EXPECTED_MAIN_HEADERS
       = [[(''Email'', ''bob@x.com''), (''Product Configurations'', ''All Apps'')],
          [(''Email'', ''ann@x.com''), (''Product Configurations'', ''Single App'')]]"
proof -
  have a: "splitLines [] (trim sampleCsv)
     = ''Email,Product Configurations'' # [''bob@x.com,All Apps''] @ ''broken''
         # ['',Single App'', ''ann@x.com,Single App'']"
    by (simp add: csv_eval)
  have a': "splitLines [] (trim sampleCsv)
     = ''Email,Product Configurations'' # [''bob@x.com,All Apps'', ''broken''] @ '',Single App''
         # [''ann@x.com,Single App'']"
    by (simp add: csv_eval)
  have h: "[''Email'', ''Product Configurations'']
             = filter (\<lambda>h. h \<noteq> []) (map trim (parseCsvLine ''Email,Product Configurations''))"
    by (simp add: csv_eval)
  have b: "length (parseCsvLine ''broken'') < length [''Email'', ''Product Configurations'']"
    by (simp add: csv_eval)
  have e: "find (\<lambda>h. toLowerCase h = ''email'') [''Email'', ''Product Configurations''] = Some ''Email''"
    "indexOf [''Email'', ''Product Configurations''] ''Email'' = Some 0"
    "parseCsvLine '',Single App'' ! 0 = []"
    by (simp_all add: csv_eval)
  have r: "parseCsvLines [''Email,Product Configurations'', ''bob@x.com,All Apps'',
                        '',Single App'', ''ann@x.com,Single App''] ''alpha.csv'' EXPECTED_MAIN_HEADERS
       = [[(''Email'', ''bob@x.com''), (''Product Configurations'', ''All Apps'')],
          [(''Email'', ''ann@x.com''), (''Product Configurations'', ''Single App'')]]"
    by (simp add: csv_eval)
  have one: "parseCsvData sampleCsv ''alpha.csv'' EXPECTED_MAIN_HEADERS
       = parseCsvLines (''Email,Product Configurations'' # [''bob@x.com,All Apps'']
            @ ['',Single App'', ''ann@x.com,Single App'']) ''alpha.csv'' EXPECTED_MAIN_HEADERS"
    using b by (intro parseCsvData_skips_malformed_line [OF a h]) blast
  have two: "parseCsvData sampleCsv ''alpha.csv'' EXPECTED_MAIN_HEADERS
       = parseCsvLines (''Email,Product Configurations'' # [''bob@x.com,All Apps'', ''broken'']
            @ [''ann@x.com,Single App'']) ''alpha.csv'' EXPECTED_MAIN_HEADERS"
    using e by (intro parseCsvData_skips_malformed_line [OF a' h]) simp
  show ?thesis using a b e(3) one two r by simp
qed




end
